theory Spec2Isabelle
  imports Main "HOL-Library.Sublist"
begin

unbundle bit_operations_syntax

section \<open>View Nodes and other JavaScript values\<close>

text \<open>
  References are natural numbers: a DOM node, an IV, a class instance and a JavaScript
  function value are each known by their identity only.
\<close>

type_synonym dom = nat
type_synonym ivref = nat
type_synonym fnref = nat
type_synonym instref = nat
type_synonym ctx = nat
type_synonym props = "(string \<times> string) list"

text \<open>A string or a number (\<open>isStringOrNumber\<close>); numbers are read as integers.\<close>

datatype prim = PStr string | PNum int

text \<open>
  The values a \<open>ref\<close> can hold: null, undefined, a boolean, a string or number, a callback,
  or an object that may carry \<open>onComponentWillMount\<close> and \<open>onComponentDidMount\<close>.
\<close>

datatype refval =
    RNull
  | RUndefined
  | RBool bool
  | RPrim prim
  | RFun fnref
  | RHooks "fnref option" "fnref option"

text \<open>
  The values \<open>mount\<close> can receive. \<open>JObj\<close> is an object that is no View Node and has no
  \<open>length\<close>. A View Node's \<open>key\<close> is \<open>None\<close> when it is null (the View Node's key is null
  when absent). A component's \<open>type\<close> is a function of the application; it is represented
  by its identity and by what its render step returns when this occurrence is mounted
  (\<open>None\<close>: the render step throws). A class also tells whether its instances define
  \<open>componentDidMount\<close> and which child context they carry, if any.
\<close>

datatype jsval =
    JNull
  | JUndefined
  | JBool bool
  | JPrim prim
  | JArr "jsval list"
  | JObj
  | JVNode vnode
and vnode =
  VNode (flags: nat) (type: vtype) (props: "props option") (children: jsval)
        (key: "prim option") (ref: refval) (className: "string option")
and vtype =
    Tag string
  | Container dom
  | FunctionComp fnref "jsval option"
  | ClassComp fnref bool "ctx option" "jsval option"

section \<open>Recycling pools (recycling.ts)\<close>

record Pools =
  nonKeyed :: "vnode list"
  keyed :: "prim \<rightharpoonup> vnode list"

definition newPools :: Pools where
  "newPools = \<lparr>nonKeyed = [], keyed = Map.empty\<rparr>"

text \<open>
  \<open>pool(vNode, tagPools)\<close>: the maps are mutated in place by the source; the model returns
  the updated \<open>tagPools\<close>.
\<close>

definition pool :: "vnode \<Rightarrow> (vtype \<rightharpoonup> Pools) \<Rightarrow> (vtype \<rightharpoonup> Pools)" where
  "pool vNode tagPools =
     (let tag = type vNode;
          k = key vNode;
          pools = (case tagPools tag of None \<Rightarrow> newPools | Some p \<Rightarrow> p)
      in (case k of
            None \<Rightarrow> tagPools(tag \<mapsto> pools\<lparr>nonKeyed := nonKeyed pools @ [vNode]\<rparr>)
          | Some k' \<Rightarrow>
              (let keyedPool = (case keyed pools k' of None \<Rightarrow> [] | Some kp \<Rightarrow> kp)
               in tagPools(tag \<mapsto> pools\<lparr>keyed := (keyed pools)(k' \<mapsto> keyedPool @ [vNode])\<rparr>))))"

text \<open>The sequences a pool map holds: empty where there is no pool or no per-key sequence.\<close>

definition nonKeyedOf :: "(vtype \<rightharpoonup> Pools) \<Rightarrow> vtype \<Rightarrow> vnode list" where
  "nonKeyedOf tagPools tag = (case tagPools tag of None \<Rightarrow> [] | Some p \<Rightarrow> nonKeyed p)"

definition keyedOf :: "(vtype \<rightharpoonup> Pools) \<Rightarrow> vtype \<Rightarrow> prim \<Rightarrow> vnode list" where
  "keyedOf tagPools tag k =
     (case tagPools tag of None \<Rightarrow> [] | Some p \<Rightarrow> (case keyed p k of None \<Rightarrow> [] | Some kp \<Rightarrow> kp))"

section \<open>The state of a mount\<close>

text \<open>
  Modelled from the spec: \<open>IVFlags\<close> and \<open>IVTypes\<close> are declared in \<open>core/implementation\<close>,
  which is not under src/. The spec gives five mutually exclusive shape flags and two IV
  types, so they are enumerations here, and the bit test
  \<open>(iv.f & (HasKeyedChildren | HasNonKeydChildren)) > 0\<close> is membership in the two.
\<close>

datatype IVFlags =
    HasInvalidChildren
  | HasTextChildren
  | HasBasicChildren
  | HasKeyedChildren
  | HasNonKeydChildren

datatype IVTypes = Regular | IsVirtualArray

text \<open>What a mounter returns and what an IV's \<open>d\<close> holds: null, undefined or a DOM node.\<close>

datatype jsdom = DNull | DUndefined | DNode dom

text \<open>An IV's \<open>c\<close>: null, one child IV, or a sequence of child IVs.\<close>

datatype ivchildren = CNull | COne ivref | CMany "ivref list"

text \<open>
  The IV, with the source's fields \<open>d\<close>, \<open>c\<close>, \<open>f\<close>, \<open>t\<close>, \<open>b\<close> and the input and index given
  to \<open>createIV\<close>. \<open>iv_f\<close> and \<open>iv_t\<close> are \<open>None\<close> until a mounter assigns them.
\<close>

record IV =
  iv_input :: jsval
  iv_i :: nat
  iv_d :: jsdom
  iv_c :: ivchildren
  iv_f :: "IVFlags option"
  iv_t :: "IVTypes option"
  iv_b :: "ivref option"

text \<open>A class component instance, as far as the mounters read it.\<close>

record componentInstance =
  inst_id :: instref
  hasComponentDidMount :: bool
  inst_CX :: ctx
  inst_render :: "jsval option"

text \<open>The closures pushed on the lifecycle queue, by the values they capture.\<close>

datatype deferred =
    RefCallback fnref dom
  | ClassDidMount instref vnode "fnref option" bool
  | FunctionalDidMount fnref jsdom props

text \<open>What a synchronously invoked function of the application receives.\<close>

datatype arg = ADom jsdom | AInst instref | AProps props

text \<open>
  The trace of a mount, in program order: the calls into the DOM and into the
  collaborators, the invocations of application functions, the pushes on the lifecycle
  queue, and, for every assignment to an IV's \<open>d\<close>, the IV the assigning mounter received
  followed by the IV assigned.
\<close>

datatype event =
    CreateTextNode dom prim
  | CreateElement dom string bool
  | InsertOrAppend dom dom "dom option"
  | SetTextContent dom prim
  | PatchProp string string dom bool bool
  | ProcessElement nat ivref dom bool
  | SetAttributeClass dom string
  | SetClassName dom string
  | CreateInstance instref ivref fnref props ctx dom
  | RenderInstance instref props ctx
  | CallFunction fnref props ctx
  | Invoke fnref arg
  | SetUPD instref bool
  | ComponentToDOMNodeMapSet instref jsdom
  | Pushed deferred
  | WroteD ivref ivref

record state =
  ivs :: "ivref \<Rightarrow> IV"
  nextIV :: nat
  nextDom :: nat
  nextInst :: nat
  lifecycle :: "deferred list"
  log :: "event list"

text \<open>
  What is fixed outside the mounters: the build mode (\<open>process.env.NODE_ENV\<close>), the
  constants of \<open>inferno-vnode-flags\<close> (not under src/, so every value is a parameter), the
  global \<open>options\<close>, and the collaborator \<open>isControlledFormElement\<close>.
\<close>

record env =
  production :: bool
  Element :: nat
  Component :: nat
  Portal :: nat
  SvgElement :: nat
  FormElement :: nat
  ComponentClass :: nat
  afterRender :: "fnref option"
  afterMount :: "fnref option"
  findDOMNodeEnabled :: bool
  isControlledFormElement :: "props \<Rightarrow> bool"

datatype error =
    InvalidInputError
  | InvalidRefError
  | UnsupportedRefUsageError
  | UnconditionalFault
  | TypeError
  | RenderException

subsection \<open>Primitive steps\<close>

definition emit :: "event \<Rightarrow> state \<Rightarrow> state" where
  "emit e s = s\<lparr>log := log s @ [e]\<rparr>"

text \<open>\<open>lifecycle.push(cb)\<close>.\<close>

definition push :: "deferred \<Rightarrow> state \<Rightarrow> state" where
  "push cb s = s\<lparr>lifecycle := lifecycle s @ [cb], log := log s @ [Pushed cb]\<rparr>"

text \<open>
  Modelled from the spec: \<open>createIV\<close> is declared in \<open>core/implementation\<close>, not under src/.
  An IV is created fresh for every mount, mirrors its input, carries its index, and its
  \<open>dom\<close> is null until assigned.
\<close>

definition createIV :: "jsval \<Rightarrow> nat \<Rightarrow> state \<Rightarrow> ivref \<times> state" where
  "createIV inp idx s =
     (nextIV s,
      s\<lparr>ivs := (ivs s)(nextIV s :=
             \<lparr>iv_input = inp, iv_i = idx, iv_d = DNull, iv_c = CNull,
              iv_f = None, iv_t = None, iv_b = None\<rparr>),
        nextIV := Suc (nextIV s)\<rparr>)"

text \<open>\<open>target.d = v\<close>, executed by the mounter that received \<open>who\<close>.\<close>

definition set_d :: "ivref \<Rightarrow> ivref \<Rightarrow> jsdom \<Rightarrow> state \<Rightarrow> state" where
  "set_d who target v s =
     s\<lparr>ivs := (ivs s)(target := (ivs s target)\<lparr>iv_d := v\<rparr>), log := log s @ [WroteD who target]\<rparr>"

definition set_c :: "ivref \<Rightarrow> ivchildren \<Rightarrow> state \<Rightarrow> state" where
  "set_c iv v s = s\<lparr>ivs := (ivs s)(iv := (ivs s iv)\<lparr>iv_c := v\<rparr>)\<rparr>"

definition set_f :: "ivref \<Rightarrow> IVFlags \<Rightarrow> state \<Rightarrow> state" where
  "set_f iv v s = s\<lparr>ivs := (ivs s)(iv := (ivs s iv)\<lparr>iv_f := Some v\<rparr>)\<rparr>"

definition set_t :: "ivref \<Rightarrow> IVTypes \<Rightarrow> state \<Rightarrow> state" where
  "set_t iv v s = s\<lparr>ivs := (ivs s)(iv := (ivs s iv)\<lparr>iv_t := Some v\<rparr>)\<rparr>"

definition set_b :: "ivref \<Rightarrow> ivref \<Rightarrow> state \<Rightarrow> state" where
  "set_b iv v s = s\<lparr>ivs := (ivs s)(iv := (ivs s iv)\<lparr>iv_b := Some v\<rparr>)\<rparr>"

text \<open>\<open>document.createTextNode(text)\<close>: a fresh DOM node.\<close>

definition createTextNode :: "prim \<Rightarrow> state \<Rightarrow> dom \<times> state" where
  "createTextNode text s =
     (nextDom s, s\<lparr>nextDom := Suc (nextDom s), log := log s @ [CreateTextNode (nextDom s) text]\<rparr>)"

text \<open>
  Modelled from the spec: \<open>documentCreateElement\<close>, \<open>insertOrAppend\<close> and \<open>setTextContent\<close>
  are declared in \<open>utils/common\<close>, not under src/: element creation in the namespace
  asked for, and the parent-relative "insert before the anchor, or append" primitive.
\<close>

definition documentCreateElement :: "string \<Rightarrow> bool \<Rightarrow> state \<Rightarrow> dom \<times> state" where
  "documentCreateElement tag isSVG s =
     (nextDom s, s\<lparr>nextDom := Suc (nextDom s), log := log s @ [CreateElement (nextDom s) tag isSVG]\<rparr>)"

definition insertOrAppend :: "dom \<Rightarrow> dom \<Rightarrow> dom option \<Rightarrow> state \<Rightarrow> state" where
  "insertOrAppend parentDOM newNode nextNode s = emit (InsertOrAppend parentDOM newNode nextNode) s"

definition setTextContent :: "dom \<Rightarrow> prim \<Rightarrow> state \<Rightarrow> state" where
  "setTextContent d text s = emit (SetTextContent d text) s"

subsection \<open>Type tests of inferno-shared and isVNode\<close>

text \<open>
  Modelled from the spec: \<open>inferno-shared\<close> is not under src/. Invalid are null, undefined,
  true and false; a View Node is recognised by its positive \<open>flags\<close>.
\<close>

fun isInvalid :: "jsval \<Rightarrow> bool" where
  "isInvalid JNull = True"
| "isInvalid JUndefined = True"
| "isInvalid (JBool b) = True"
| "isInvalid v = False"

fun isStringOrNumber :: "jsval \<Rightarrow> bool" where
  "isStringOrNumber (JPrim p) = True"
| "isStringOrNumber v = False"

fun isArray :: "jsval \<Rightarrow> bool" where
  "isArray (JArr xs) = True"
| "isArray v = False"

fun isVNode :: "jsval \<Rightarrow> bool" where
  "isVNode (JVNode v) = (flags v > 0)"
| "isVNode x = False"

text \<open>\<open>isVNode(child) && !isNullOrUndef(child.key)\<close>.\<close>

fun hasKey :: "jsval \<Rightarrow> bool" where
  "hasKey (JVNode v) = (flags v > 0 \<and> key v \<noteq> None)"
| "hasKey x = False"

text \<open>JavaScript truthiness of a ref, for \<open>if (ref)\<close>.\<close>

fun truthy :: "refval \<Rightarrow> bool" where
  "truthy RNull = False"
| "truthy RUndefined = False"
| "truthy (RBool b) = b"
| "truthy (RPrim (PStr str)) = (str \<noteq> [])"
| "truthy (RPrim (PNum n)) = (n \<noteq> 0)"
| "truthy (RFun fn) = True"
| "truthy (RHooks w dm) = True"

fun isInvalidRef :: "refval \<Rightarrow> bool" where
  "isInvalidRef RNull = True"
| "isInvalidRef RUndefined = True"
| "isInvalidRef (RBool b) = True"
| "isInvalidRef r = False"

section \<open>The mounters (mounting.ts)\<close>

text \<open>
  The \<open>lifecycle\<close> array every mounter passes on is one shared array; it is the \<open>lifecycle\<close>
  of the state. A mounter returns the error it throws (\<open>Inl\<close>) or its result and the state
  it leaves (\<open>Inr\<close>).
\<close>

subsection \<open>mountText\<close>

definition mountText ::
  "ivref \<Rightarrow> prim \<Rightarrow> dom \<Rightarrow> dom option \<Rightarrow> ctx \<Rightarrow> bool \<Rightarrow> bool \<Rightarrow> state \<Rightarrow> dom \<times> state" where
  "mountText iv text parentDOM nextNode cx isSVG insertIntoDom s =
     (let (d, s1) = createTextNode text s;
          s2 = (if insertIntoDom
                then insertOrAppend parentDOM d nextNode (set_d iv iv (DNode d) s1)
                else s1)
      in (d, set_f iv HasTextChildren s2))"

subsection \<open>mountRef and the component callbacks\<close>

definition mountRef :: "env \<Rightarrow> dom \<Rightarrow> refval \<Rightarrow> state \<Rightarrow> error + state" where
  "mountRef E d val s =
     (case val of
        RFun fn \<Rightarrow> Inr (push (RefCallback fn d) s)
      | _ \<Rightarrow>
          if isInvalidRef val then Inr s
          else if \<not> production E then Inl InvalidRefError
          else Inl UnconditionalFault)"

definition mountClassComponentCallbacks ::
  "env \<Rightarrow> vnode \<Rightarrow> refval \<Rightarrow> componentInstance \<Rightarrow> state \<Rightarrow> error + state" where
  "mountClassComponentCallbacks E vNode r inst s =
     (case (if truthy r then
              (case r of
                 RFun fn \<Rightarrow> Inr (emit (Invoke fn (AInst (inst_id inst))) s)
               | _ \<Rightarrow>
                   if \<not> production E then
                     (case r of
                        RPrim p \<Rightarrow> Inl InvalidRefError
                      | RHooks w dm \<Rightarrow> Inl UnsupportedRefUsageError
                      | _ \<Rightarrow> Inl InvalidRefError)
                   else Inl UnconditionalFault)
            else Inr s) of
        Inl e \<Rightarrow> Inl e
      | Inr s1 \<Rightarrow>
          (let hasDidMount = hasComponentDidMount inst;
               am = afterMount E
           in Inr (if hasDidMount \<or> am \<noteq> None
                   then push (ClassDidMount (inst_id inst) vNode am hasDidMount) s1
                   else s1)))"

definition mountFunctionalComponentCallbacks ::
  "props \<Rightarrow> refval \<Rightarrow> jsdom \<Rightarrow> state \<Rightarrow> state" where
  "mountFunctionalComponentCallbacks ps r d s =
     (if truthy r then
        (case r of
           RHooks w dm \<Rightarrow>
             (let s1 = (case w of Some fn \<Rightarrow> emit (Invoke fn (AProps ps)) s | None \<Rightarrow> s)
              in (case dm of Some fn \<Rightarrow> push (FunctionalDidMount fn d ps) s1 | None \<Rightarrow> s1))
         | _ \<Rightarrow> s)
      else s)"

subsection \<open>The parts of mountElement around its children\<close>

text \<open>Lines 186 to 199: the props, in the order of the \<open>for ... in\<close> loop.\<close>

definition mountElementProps :: "env \<Rightarrow> ivref \<Rightarrow> vnode \<Rightarrow> dom \<Rightarrow> bool \<Rightarrow> state \<Rightarrow> state" where
  "mountElementProps E iv vNode d isSVG s =
     (case props vNode of
        None \<Rightarrow> s
      | Some ps \<Rightarrow>
          (let isFormElement = ((flags vNode AND FormElement E) > 0);
               hasControlledValue = (if isFormElement then isControlledFormElement E ps else False);
               s1 = fold (\<lambda>(prop, val). emit (PatchProp prop val d isSVG hasControlledValue)) ps s
           in if isFormElement
              then emit (ProcessElement (flags vNode) iv d hasControlledValue) s1
              else s1))"

text \<open>Lines 201 to 207.\<close>

definition mountElementClassName :: "vnode \<Rightarrow> dom \<Rightarrow> bool \<Rightarrow> state \<Rightarrow> state" where
  "mountElementClassName vNode d isSVG s =
     (case className vNode of
        None \<Rightarrow> s
      | Some cn \<Rightarrow> if isSVG then emit (SetAttributeClass d cn) s else emit (SetClassName d cn) s)"

text \<open>Lines 186 to 216: props, className, ref, insertion.\<close>

definition finishElement ::
  "env \<Rightarrow> ivref \<Rightarrow> vnode \<Rightarrow> dom \<Rightarrow> bool \<Rightarrow> dom \<Rightarrow> dom option \<Rightarrow> bool \<Rightarrow> state
   \<Rightarrow> error + (jsdom \<times> state)" where
  "finishElement E iv vNode d isSVG parentDOM nextNode insertIntoDom s =
     (let s1 = mountElementProps E iv vNode d isSVG s;
          s2 = mountElementClassName vNode d isSVG s1
      in case (if ref vNode \<noteq> RNull then mountRef E d (ref vNode) s2 else Inr s2) of
           Inl e \<Rightarrow> Inl e
         | Inr s3 \<Rightarrow>
             Inr (DNode d,
                  if insertIntoDom
                  then insertOrAppend parentDOM d nextNode (set_d iv iv (DNode d) s3)
                  else s3))"

subsection \<open>The parts of mountComponent around its render output\<close>

text \<open>
  Modelled from the spec: \<open>createClassComponentInstance\<close> is declared in \<open>utils/components\<close>,
  not under src/: it instantiates the component (a constructor call with props and
  context); the instance carries a possibly extended child context.
\<close>

definition createClassComponentInstance ::
  "ivref \<Rightarrow> vtype \<Rightarrow> props \<Rightarrow> ctx \<Rightarrow> dom \<Rightarrow> state \<Rightarrow> error + (componentInstance \<times> state)" where
  "createClassComponentInstance iv ty ps cx parentDOM s =
     (case ty of
        ClassComp fn dm ccx r \<Rightarrow>
          Inr (\<lparr>inst_id = nextInst s, hasComponentDidMount = dm,
                inst_CX = (case ccx of None \<Rightarrow> cx | Some c \<Rightarrow> c), inst_render = r\<rparr>,
               s\<lparr>nextInst := Suc (nextInst s),
                 log := log s @ [CreateInstance (nextInst s) iv fn ps cx parentDOM]\<rparr>)
      | _ \<Rightarrow> Inl TypeError)"

text \<open>\<open>vNode.props || EMPTY_OBJ\<close>.\<close>

definition propsOrEmpty :: "vnode \<Rightarrow> props" where
  "propsOrEmpty vNode = (case props vNode of None \<Rightarrow> [] | Some ps \<Rightarrow> ps)"

text \<open>
  Lines 274 to 299: the instance (of a class), the render output and the context for the
  render output.
\<close>

definition renderComponent ::
  "env \<Rightarrow> ivref \<Rightarrow> vnode \<Rightarrow> dom \<Rightarrow> ctx \<Rightarrow> state
   \<Rightarrow> error + ((componentInstance option \<times> jsval \<times> ctx) \<times> state)" where
  "renderComponent E iv vNode parentDOM cx s =
     (let isClass = ((flags vNode AND ComponentClass E) > 0);
          ps = propsOrEmpty vNode
      in if isClass then
           (case createClassComponentInstance iv (type vNode) ps cx parentDOM s of
              Inl e \<Rightarrow> Inl e
            | Inr (inst, s1) \<Rightarrow>
                (case inst_render inst of
                   None \<Rightarrow> Inl RenderException
                 | Some renderOutput \<Rightarrow>
                     (let s2 = emit (RenderInstance (inst_id inst) ps cx) s1;
                          s3 = (case afterRender E of
                                  Some fn \<Rightarrow> emit (Invoke fn (AInst (inst_id inst))) s2
                                | None \<Rightarrow> s2)
                      in Inr ((Some inst, renderOutput, inst_CX inst), s3))))
         else
           (case type vNode of
              FunctionComp fn r \<Rightarrow>
                (case r of
                   None \<Rightarrow> Inl RenderException
                 | Some renderOutput \<Rightarrow>
                     Inr ((None, renderOutput, cx), emit (CallFunction fn ps cx) s))
            | _ \<Rightarrow> Inl TypeError))"

text \<open>Lines 319 to 334: callbacks, insertion, result.\<close>

definition finishComponent ::
  "env \<Rightarrow> ivref \<Rightarrow> vnode \<Rightarrow> componentInstance option \<Rightarrow> jsdom \<Rightarrow> dom \<Rightarrow> dom option \<Rightarrow> bool
   \<Rightarrow> state \<Rightarrow> error + (jsdom \<times> state)" where
  "finishComponent E iv vNode instOpt d parentDOM nextNode insertIntoDom s =
     (case (case instOpt of
              Some inst \<Rightarrow>
                (case mountClassComponentCallbacks E vNode (ref vNode) inst s of
                   Inl e \<Rightarrow> Inl e
                 | Inr s1 \<Rightarrow>
                     (let s2 = emit (SetUPD (inst_id inst) False) s1
                      in Inr (if findDOMNodeEnabled E
                              then emit (ComponentToDOMNodeMapSet (inst_id inst) d) s2
                              else s2)))
            | None \<Rightarrow>
                Inr (mountFunctionalComponentCallbacks (propsOrEmpty vNode) (ref vNode) d s)) of
        Inl e \<Rightarrow> Inl e
      | Inr s3 \<Rightarrow>
          if insertIntoDom \<and> d \<noteq> DNull then
            (let s4 = set_d iv iv d s3
             in (case d of
                   DNode n \<Rightarrow> Inr (d, insertOrAppend parentDOM n nextNode s4)
                 | _ \<Rightarrow> Inl TypeError))
          else Inr (d, s3))"

text \<open>\<open>(iv.c as any[]).push(childIV)\<close>.\<close>

definition pushChild :: "ivref \<Rightarrow> ivref \<Rightarrow> state \<Rightarrow> error + state" where
  "pushChild iv childIV s =
     (case iv_c (ivs s iv) of
        CMany cs \<Rightarrow> Inr (set_c iv (CMany (cs @ [childIV])) s)
      | _ \<Rightarrow> Inl TypeError)"

text \<open>Lines 251 to 261 of mountArrayChildren.\<close>

definition finishArray :: "ivref \<Rightarrow> bool \<Rightarrow> state \<Rightarrow> error + state" where
  "finishArray iv isVirtual s =
     (if isVirtual then
        (let s1 = set_t iv IsVirtualArray s
         in if iv_f (ivs s1 iv) = Some HasKeyedChildren \<or> iv_f (ivs s1 iv) = Some HasNonKeydChildren
            then (case iv_c (ivs s1 iv) of
                    CMany (c0 # cs) \<Rightarrow> Inr (set_d iv iv (iv_d (ivs s1 c0)) s1)
                  | _ \<Rightarrow> Inl TypeError)
            else Inr (set_d iv iv DNull s1))
      else Inr (set_t iv Regular s))"

subsection \<open>The recursive mounters\<close>

text \<open>
  \<open>mountArrayLoop\<close> is the \<open>for\<close> loop of mountArrayChildren (lines 235 to 249) from index
  \<open>i\<close> on. mountArrayChildren reads \<open>children.length\<close>: of null or undefined that throws,
  and of any other value that is no array it is undefined, so the loop body never runs
  (its callers never pass a string or a number).
\<close>

function
  mount :: "env \<Rightarrow> ivref \<Rightarrow> jsval \<Rightarrow> dom \<Rightarrow> dom option \<Rightarrow> ctx \<Rightarrow> bool \<Rightarrow> bool \<Rightarrow> state
            \<Rightarrow> error + (jsdom \<times> state)"
and mountVNode :: "env \<Rightarrow> ivref \<Rightarrow> vnode \<Rightarrow> dom \<Rightarrow> dom option \<Rightarrow> ctx \<Rightarrow> bool \<Rightarrow> bool \<Rightarrow> state
            \<Rightarrow> error + (jsdom \<times> state)"
and mountPortal :: "env \<Rightarrow> ivref \<Rightarrow> vnode \<Rightarrow> dom \<Rightarrow> dom option \<Rightarrow> ctx \<Rightarrow> bool \<Rightarrow> bool \<Rightarrow> state
            \<Rightarrow> error + (jsdom \<times> state)"
and mountElement :: "env \<Rightarrow> ivref \<Rightarrow> vnode \<Rightarrow> dom \<Rightarrow> dom option \<Rightarrow> ctx \<Rightarrow> bool \<Rightarrow> bool \<Rightarrow> state
            \<Rightarrow> error + (jsdom \<times> state)"
and mountArrayChildren :: "env \<Rightarrow> ivref \<Rightarrow> jsval \<Rightarrow> dom \<Rightarrow> dom option \<Rightarrow> ctx \<Rightarrow> bool \<Rightarrow> bool \<Rightarrow> bool
            \<Rightarrow> state \<Rightarrow> error + state"
and mountArrayLoop :: "env \<Rightarrow> ivref \<Rightarrow> jsval list \<Rightarrow> nat \<Rightarrow> bool \<Rightarrow> dom \<Rightarrow> dom option \<Rightarrow> ctx \<Rightarrow> bool
            \<Rightarrow> bool \<Rightarrow> state \<Rightarrow> error + state"
and mountComponent :: "env \<Rightarrow> ivref \<Rightarrow> vnode \<Rightarrow> dom \<Rightarrow> dom option \<Rightarrow> ctx \<Rightarrow> bool \<Rightarrow> bool \<Rightarrow> state
            \<Rightarrow> error + (jsdom \<times> state)"
where
  "mount E iv input parentDOM nextNode cx isSVG insertIntoDOM s =
     (if isStringOrNumber input then
        (case input of
           JPrim p \<Rightarrow>
             (let (d, s1) = mountText iv p parentDOM nextNode cx isSVG insertIntoDOM s
              in Inr (DNode d, s1))
         | _ \<Rightarrow> Inl TypeError)
      else if isVNode input then
        (case input of
           JVNode vNode \<Rightarrow> mountVNode E iv vNode parentDOM nextNode cx isSVG insertIntoDOM s
         | _ \<Rightarrow> Inl TypeError)
      else if \<not> production E \<and> \<not> isArray input then Inl InvalidInputError
      else
        (case mountArrayChildren E iv input parentDOM nextNode cx isSVG False True s of
           Inl e \<Rightarrow> Inl e
         | Inr s1 \<Rightarrow> Inr (DNull, s1)))"
| "mountVNode E iv vNode parentDOM nextNode cx isSVG insertIntoDOM s =
     (if (flags vNode AND Element E) > 0 then
        mountElement E iv vNode parentDOM nextNode cx isSVG insertIntoDOM s
      else if (flags vNode AND Component E) > 0 then
        mountComponent E iv vNode parentDOM nextNode cx isSVG insertIntoDOM s
      else if (flags vNode AND Portal E) > 0 then
        mountPortal E iv vNode parentDOM nextNode cx False insertIntoDOM s
      else Inr (DUndefined, s))"
| "mountPortal E iv vNode parentDOM nextNode cx isSVG insertIntoDom s =
     (let (childIV, s1) = createIV (children vNode) 0 s;
          s2 = set_c iv (COne childIV) s1
      in case type vNode of
           Container target \<Rightarrow>
             (case mount E childIV (children vNode) target None cx isSVG True s2 of
                Inl e \<Rightarrow> Inl e
              | Inr (r, s3) \<Rightarrow>
                  (let (d, s4) = mountText iv (PStr []) parentDOM nextNode cx isSVG insertIntoDom s3
                   in Inr (DNode d, s4)))
         | _ \<Rightarrow> Inl TypeError)"
| "mountElement E iv vNode parentDOM nextNode cx isSVG insertIntoDom s =
     (let isSVG' = (isSVG \<or> (flags vNode AND SvgElement E) > 0)
      in case type vNode of
           Tag tag \<Rightarrow>
             (let (d, s1) = documentCreateElement tag isSVG' s;
                  chn = children vNode
              in case (if isInvalid chn then Inr (set_f iv HasInvalidChildren s1)
                       else if isStringOrNumber chn then
                         (case chn of
                            JPrim p \<Rightarrow> Inr (set_f iv HasTextChildren (setTextContent d p s1))
                          | _ \<Rightarrow> Inl TypeError)
                       else
                         (let childrenIsSVG = (isSVG' \<and> tag \<noteq> ''foreignObject'')
                          in if isVNode chn then
                               (case chn of
                                  JVNode cv \<Rightarrow>
                                    (let (childIV, s2) = createIV chn 0 s1;
                                         s3 = set_c iv (COne childIV) s2;
                                         s4 = set_f iv HasBasicChildren s3
                                     in case mountVNode E childIV cv d None cx childrenIsSVG True s4 of
                                          Inl e \<Rightarrow> Inl e
                                        | Inr (r, s5) \<Rightarrow> Inr s5)
                                | _ \<Rightarrow> Inl TypeError)
                             else mountArrayChildren E iv chn d None cx childrenIsSVG False False s1)) of
                   Inl e \<Rightarrow> Inl e
                 | Inr s6 \<Rightarrow> finishElement E iv vNode d isSVG' parentDOM nextNode insertIntoDom s6)
         | _ \<Rightarrow> Inl TypeError)"
| "mountArrayChildren E iv chn parentDOM nextNode cx isSVG forceKeyed isVirtual s =
     (let s1 = set_f iv HasInvalidChildren (set_c iv CNull s)
      in case (case chn of
                 JArr xs \<Rightarrow> mountArrayLoop E iv xs 0 True parentDOM nextNode cx isSVG forceKeyed s1
               | JNull \<Rightarrow> Inl TypeError
               | JUndefined \<Rightarrow> Inl TypeError
               | _ \<Rightarrow> Inr s1) of
           Inl e \<Rightarrow> Inl e
         | Inr s2 \<Rightarrow> finishArray iv isVirtual s2)"
| "mountArrayLoop E iv [] i firstValid parentDOM nextNode cx isSVG forceKeyed s = Inr s"
| "mountArrayLoop E iv (child # rest) i firstValid parentDOM nextNode cx isSVG forceKeyed s =
     (if \<not> isInvalid child then
        (let s1 = (if firstValid
                   then set_f iv (if forceKeyed \<or> hasKey child
                                  then HasKeyedChildren else HasNonKeydChildren)
                          (set_c iv (CMany []) s)
                   else s);
             (childIV, s2) = createIV child i s1
         in case pushChild iv childIV s2 of
              Inl e \<Rightarrow> Inl e
            | Inr s3 \<Rightarrow>
                (case mount E childIV child parentDOM nextNode cx isSVG True s3 of
                   Inl e \<Rightarrow> Inl e
                 | Inr (r, s4) \<Rightarrow>
                     mountArrayLoop E iv rest (Suc i) False parentDOM nextNode cx isSVG forceKeyed s4))
      else mountArrayLoop E iv rest (Suc i) firstValid parentDOM nextNode cx isSVG forceKeyed s)"
| "mountComponent E iv vNode parentDOM nextNode cx isSVG insertIntoDom s =
     (case renderComponent E iv vNode parentDOM cx s of
        Inl e \<Rightarrow> Inl e
      | Inr ((instOpt, renderOutput, cx'), s1) \<Rightarrow>
          (case (if isInvalid renderOutput then Inr (DNull, set_f iv HasInvalidChildren s1)
                 else
                   (let s2 = set_f iv HasBasicChildren s1;
                        (childIV, s3) = createIV renderOutput 0 s2;
                        s4 = set_c iv (COne childIV) s3;
                        s5 = set_b childIV iv s4
                    in case mount E childIV renderOutput parentDOM nextNode cx' isSVG False s5 of
                         Inl e \<Rightarrow> Inl e
                       | Inr (d, s6) \<Rightarrow> Inr (d, set_d iv childIV d s6))) of
             Inl e \<Rightarrow> Inl e
           | Inr (d, s7) \<Rightarrow>
               finishComponent E iv vNode instOpt d parentDOM nextNode insertIntoDom s7))"
  by pat_completeness auto

text \<open>
  Every call descends in the View Node tree: a render output is part of the component's
  \<open>type\<close>, and a call on the same value goes from a dispatcher to a specialised mounter.
\<close>

termination mount
  apply (relation "measure (\<lambda>x. case x of
      Inl (Inl (E, iv, input, r)) \<Rightarrow> 2 * size input + 1
    | Inl (Inr (Inl (E, iv, v, r))) \<Rightarrow> 2 * size v + 1
    | Inl (Inr (Inr (E, iv, v, r))) \<Rightarrow> 2 * size v
    | Inr (Inl (Inl (E, iv, v, r))) \<Rightarrow> 2 * size v
    | Inr (Inl (Inr (E, iv, chn, r))) \<Rightarrow> 2 * size chn
    | Inr (Inr (Inl (E, iv, xs, r))) \<Rightarrow> 2 * size_list size xs
    | Inr (Inr (Inr (E, iv, v, r))) \<Rightarrow> 2 * size v)")
         apply simp_all
  subgoal for iv vNode
    by (cases vNode) simp
  subgoal for E iv vNode
    by (cases vNode) auto
  subgoal for E vNode
    by (cases vNode) simp
  subgoal for E iv vNode
    by (cases vNode; cases "type vNode")
       (auto simp: renderComponent_def createClassComponentInstance_def Let_def
             split: if_splits option.splits sum.splits)
  done

declare mount.simps [simp del] mountVNode.simps [simp del] mountPortal.simps [simp del]
  mountElement.simps [simp del] mountArrayChildren.simps [simp del]
  mountArrayLoop.simps [simp del] mountComponent.simps [simp del]

section \<open>Notions used to state the properties\<close>

text \<open>The DOM containers named as a portal's \<open>type\<close> anywhere in a value, render outputs included.\<close>


fun containers :: "jsval \<Rightarrow> dom set"
and containersV :: "vnode \<Rightarrow> dom set"
and containersT :: "vtype \<Rightarrow> dom set" where
  "containers (JArr xs) = (\<Union>x \<in> set xs. containers x)"
| "containers (JVNode v) = containersV v"
| "containers JNull = {}"
| "containers JUndefined = {}"
| "containers (JBool b) = {}"
| "containers (JPrim p) = {}"
| "containers JObj = {}"
| "containersV (VNode fl ty ps chn k r cn) = containersT ty \<union> containers chn"
| "containersT (Tag tag) = {}"
| "containersT (Container d) = {d}"
| "containersT (FunctionComp fn r) = (case r of None \<Rightarrow> {} | Some out \<Rightarrow> containers out)"
| "containersT (ClassComp fn dm ccx r) = (case r of None \<Rightarrow> {} | Some out \<Rightarrow> containers out)"

text \<open>The events a step from \<open>s\<close> to \<open>s'\<close> has added to the trace.\<close>

definition newlog :: "state \<Rightarrow> state \<Rightarrow> event list" where
  "newlog s s' = drop (length (log s)) (log s')"

text \<open>
  A step that received \<open>iv\<close> only adds: to the counters, the trace and the lifecycle queue.
  Of the IVs that existed before, it changes none but \<open>iv\<close>, and of no IV the
  back-reference, the input or the index.
\<close>

definition ext :: "ivref \<Rightarrow> state \<Rightarrow> state \<Rightarrow> bool" where
  "ext iv s s' \<longleftrightarrow>
     nextIV s \<le> nextIV s' \<and> nextDom s \<le> nextDom s' \<and> nextInst s \<le> nextInst s'
     \<and> prefix (log s) (log s') \<and> prefix (lifecycle s) (lifecycle s')
     \<and> (\<forall>a. a < nextIV s \<longrightarrow> a \<noteq> iv \<longrightarrow> ivs s' a = ivs s a)
     \<and> (\<forall>a. a < nextIV s \<longrightarrow> iv_b (ivs s' a) = iv_b (ivs s a)
              \<and> iv_input (ivs s' a) = iv_input (ivs s a) \<and> iv_i (ivs s' a) = iv_i (ivs s a))"

text \<open>
  What holds of every event of a mount into parent \<open>P\<close> of a value whose containers are
  \<open>T\<close>: an insertion goes into \<open>P\<close>, into a container of \<open>T\<close> or into a node created
  since, and inserts a node from \<open>N\<close> on; no application function is invoked with a DOM node; an assignment to the \<open>d\<close>
  of another IV is to an IV created since whose back-reference is the assigning IV.
\<close>

definition evok :: "dom \<Rightarrow> dom set \<Rightarrow> dom \<Rightarrow> state \<Rightarrow> state \<Rightarrow> event \<Rightarrow> bool" where
  "evok P T N s s' e =
     (case e of
        InsertOrAppend p n x \<Rightarrow> (p = P \<or> p \<in> T \<or> nextDom s \<le> p) \<and> N \<le> n
      | Invoke fn a \<Rightarrow> (case a of ADom d \<Rightarrow> False | _ \<Rightarrow> True)
      | WroteD w t \<Rightarrow> w = t \<or> (nextIV s \<le> t \<and> t < nextIV s' \<and> iv_b (ivs s' t) = Some w)
      | _ \<Rightarrow> True)"

definition inv :: "ivref \<Rightarrow> dom \<Rightarrow> dom set \<Rightarrow> dom \<Rightarrow> state \<Rightarrow> state \<Rightarrow> bool" where
  "inv iv P T N s s' \<longleftrightarrow> ext iv s s' \<and> (\<forall>e \<in> set (newlog s s'). evok P T N s s' e)"


text \<open>The first valid entry's decision of the loop of mountArrayChildren (lines 239 to 243).\<close>

definition firstValidStep :: "ivref \<Rightarrow> bool \<Rightarrow> bool \<Rightarrow> jsval \<Rightarrow> state \<Rightarrow> state" where
  "firstValidStep iv fv fk child s =
     (if fv then set_f iv (if fk \<or> hasKey child then HasKeyedChildren else HasNonKeydChildren)
                  (set_c iv (CMany []) s)
      else s)"


text \<open>Example parameters: a development and a production build, and an empty state.\<close>

definition devEnv :: env where
  "devEnv = \<lparr>production = False, Element = 1, Component = 6, Portal = 8, SvgElement = 16,
     FormElement = 32, ComponentClass = 2, afterRender = None, afterMount = None,
     findDOMNodeEnabled = False, isControlledFormElement = (\<lambda>ps. False)\<rparr>"

definition prodEnv :: env where
  "prodEnv = devEnv\<lparr>production := True\<rparr>"

definition emptyIV :: IV where
  "emptyIV = \<lparr>iv_input = JNull, iv_i = 0, iv_d = DNull, iv_c = CNull, iv_f = None, iv_t = None,
     iv_b = None\<rparr>"

text \<open>One IV (number 0) exists, and the DOM nodes 0 to 9.\<close>

definition initState :: state where
  "initState = \<lparr>ivs = (\<lambda>a. emptyIV), nextIV = 1, nextDom = 10, nextInst = 0,
     lifecycle = [], log = []\<rparr>"

text \<open>A View Node that mountVNode hands to mountPortal (lines 92 to 111).\<close>

definition portalRouted :: "env \<Rightarrow> vnode \<Rightarrow> bool" where
  "portalRouted E v \<longleftrightarrow>
     \<not> 0 < flags v AND Element E \<and> \<not> 0 < flags v AND Component E \<and> 0 < flags v AND Portal E"

text \<open>Example: a portal into container 2 whose content is a \<open>p\<close> element.\<close>

definition portalOfP :: vnode where
  "portalOfP = VNode 8 (Container 2)  None
     (JVNode (VNode 1 (Tag ''p'') None JNull None RNull None)) None RNull None"

text \<open>Example: a functional component whose render step returns the text \<open>a\<close>.\<close>

definition textComponent :: vnode where
  "textComponent = VNode 4 (FunctionComp 3 (Some (JPrim (PStr ''a'')))) None JNull None RNull None"

text \<open>Example: a \<open>div\<close> without children whose ref is the callback 7.\<close>

definition divWithRef :: vnode where
  "divWithRef = VNode 1 (Tag ''div'') None JNull None (RFun 7) None"

text \<open>
  Example: a class component with \<open>componentDidMount\<close> whose render step returns the text
  \<open>a\<close>, and a class component with \<open>componentDidMount\<close> whose render step returns the
  former.
\<close>

definition innerClass :: vnode where
  "innerClass = VNode 2 (ClassComp 5 True None (Some (JPrim (PStr ''a'')))) None JNull None RNull None"

definition outerClass :: vnode where
  "outerClass = VNode 2 (ClassComp 6 True None (Some (JVNode innerClass))) None JNull None RNull None"

text \<open>The child IVs of an IV's sequence; the index and the input a child IV was created with.\<close>

definition kids :: "IV \<Rightarrow> ivref list" where
  "kids v = (case iv_c v of CMany cs \<Rightarrow> cs | _ \<Rightarrow> [])"

definition entryOf :: "state \<Rightarrow> ivref \<Rightarrow> nat \<times> jsval" where
  "entryOf s c = (iv_i (ivs s c), iv_input (ivs s c))"

text \<open>The valid entries of an array with their positions, counted from \<open>i\<close>.\<close>

definition validEntries :: "nat \<Rightarrow> jsval list \<Rightarrow> (nat \<times> jsval) list" where
  "validEntries i xs = filter (\<lambda>(j, x). \<not> isInvalid x) (zip [i..<i + length xs] xs)"

text \<open>Example: the array of the spec's second scenario.\<close>

definition mixedArray :: "jsval list" where
  "mixedArray = [JPrim (PStr ''a''),
     JVNode (VNode 1 (Tag ''span'') None JNull (Some (PStr ''x'')) RNull None), JNull]"

text \<open>Example: a keyed element first, after an invalid entry, and a text after it.\<close>

definition keyedFirstArray :: "jsval list" where
  "keyedFirstArray = [JBool False,
     JVNode (VNode 1 (Tag ''li'') None JNull (Some (PStr ''k'')) RNull None), JPrim (PStr ''b'')]"


text \<open>
  The Array Mounter in the spec's words: every valid entry, in order, gets its own child
  IV tagged with its position and is mounted by the dispatcher with immediate insertion
  at the shared anchor; the first of them decides the flags. It is compared with the
  loop of mountArrayChildren below.
\<close>

fun mountValidEntries ::
  "env \<Rightarrow> ivref \<Rightarrow> (nat \<times> jsval) list \<Rightarrow> bool \<Rightarrow> dom \<Rightarrow> dom option \<Rightarrow> ctx \<Rightarrow> bool \<Rightarrow> bool
   \<Rightarrow> state \<Rightarrow> error + state" where
  "mountValidEntries E iv [] fv P nx cx svg fk s = Inr s"
| "mountValidEntries E iv ((j, child) # rest) fv P nx cx svg fk s =
     (let (childIV, s2) = createIV child j (firstValidStep iv fv fk child s)
      in case pushChild iv childIV s2 of
           Inl e \<Rightarrow> Inl e
         | Inr s3 \<Rightarrow>
             (case mount E childIV child P nx cx svg True s3 of
                Inl e \<Rightarrow> Inl e
              | Inr (r, s4) \<Rightarrow> mountValidEntries E iv rest False P nx cx svg fk s4))"

section \<open>Properties of the pools\<close>

text \<open>
  C9: \<open>pool(vNode, tagPools)\<close> appends the node to the non-keyed sequence of the pool of its
  tag when its key is null, and to the keyed sequence of its key otherwise, creating the
  pool and the sequence on demand; every other sequence is unchanged, so every sequence
  of every pool only grows.
\<close>

theorem pool_appends:
  "(case key v of
      None \<Rightarrow> nonKeyedOf (pool v tp) (type v) = nonKeyedOf tp (type v) @ [v]
             \<and> (\<forall>k. keyedOf (pool v tp) (type v) k = keyedOf tp (type v) k)
    | Some k \<Rightarrow> keyedOf (pool v tp) (type v) k = keyedOf tp (type v) k @ [v]
             \<and> nonKeyedOf (pool v tp) (type v) = nonKeyedOf tp (type v)
             \<and> (\<forall>k'. k' \<noteq> k \<longrightarrow> keyedOf (pool v tp) (type v) k' = keyedOf tp (type v) k'))
   \<and> (\<forall>tag. tag \<noteq> type v \<longrightarrow> pool v tp tag = tp tag)
   \<and> type v \<in> dom (pool v tp)
   \<and> (\<forall>tag. \<exists>ys. nonKeyedOf (pool v tp) tag = nonKeyedOf tp tag @ ys)
   \<and> (\<forall>tag k. \<exists>ys. keyedOf (pool v tp) tag k = keyedOf tp tag k @ ys)"
  by (auto simp: pool_def nonKeyedOf_def keyedOf_def newPools_def Let_def split: option.splits)

theorem pool_appends_witness:
  "keyedOf (pool (VNode 1 (Tag ''li'') None JNull (Some (PStr ''a'')) RNull None) Map.empty)
       (Tag ''li'') (PStr ''a'')
     = [VNode 1 (Tag ''li'') None JNull (Some (PStr ''a'')) RNull None]
   \<and> keyedOf (pool (VNode 1 (Tag ''li'') None JNull (Some (PStr ''a'')) RNull None) Map.empty)
       (Tag ''li'') (PStr ''b'') = []
   \<and> pool (VNode 1 (Tag ''li'') None JNull (Some (PStr ''a'')) RNull None) Map.empty (Tag ''p'')
     = None"
  using pool_appends [of "VNode 1 (Tag ''li'') None JNull (Some (PStr ''a'')) RNull None" Map.empty]
  by (simp add: keyedOf_def)

section \<open>Every mounter only extends the state\<close>

lemma newlog_append:
  "prefix (log s) (log s1) \<Longrightarrow> prefix (log s1) (log s2)
   \<Longrightarrow> newlog s s2 = newlog s s1 @ newlog s1 s2"
  by (auto simp: newlog_def prefix_def)

lemma ext_trans:
  "ext iv s s1 \<Longrightarrow> ext iv' s1 s2 \<Longrightarrow> iv' = iv \<or> nextIV s \<le> iv' \<Longrightarrow> ext iv s s2"
  unfolding ext_def
  by (intro conjI; (elim conjE)?) (force intro: order_trans prefix_order.trans)+

lemma inv_refl: "inv iv P T N s s"
  by (simp add: inv_def ext_def newlog_def)

lemma evok_first:
  "evok P T N s s1 e \<Longrightarrow> ext iv' s1 s2 \<Longrightarrow> evok P T N s s2 e"
  by (auto simp: evok_def ext_def split: event.splits)

lemma evok_second:
  "evok P' T' N' s1 s2 e \<Longrightarrow> ext iv s s1 \<Longrightarrow> P' = P \<or> P' \<in> T \<or> nextDom s \<le> P' \<Longrightarrow> T' \<subseteq> T
   \<Longrightarrow> N \<le> N' \<Longrightarrow> evok P T N s s2 e"
  by (auto simp: evok_def ext_def split: event.splits)

lemma inv_trans:
  assumes a: "inv iv P T N s s1" and b: "inv iv' P' T' N' s1 s2"
    and iv: "iv' = iv \<or> nextIV s \<le> iv'"
    and P: "P' = P \<or> P' \<in> T \<or> nextDom s \<le> P'" and T: "T' \<subseteq> T"
    and N: "N \<le> N'"
  shows "inv iv P T N s s2"
proof -
  have e1: "ext iv s s1" and e2: "ext iv' s1 s2"
    using a b by (simp_all add: inv_def)
  have e: "ext iv s s2"
    using e1 e2 iv by (rule ext_trans)
  have n: "newlog s s2 = newlog s s1 @ newlog s1 s2"
    using e1 e2 by (intro newlog_append) (simp_all add: ext_def)
  have "evok P T N s s2 ev" if "ev \<in> set (newlog s s2)" for ev
  proof -
    from that n consider "ev \<in> set (newlog s s1)" | "ev \<in> set (newlog s1 s2)"
      by auto
    then show ?thesis
    proof cases
      case 1
      with a have "evok P T N s s1 ev" by (simp add: inv_def)
      then show ?thesis using e2 by (rule evok_first)
    next
      case 2
      with b have "evok P' T' N' s1 s2 ev" by (simp add: inv_def)
      then show ?thesis using e1 P T N by (rule evok_second)
    qed
  qed
  with e show ?thesis by (simp add: inv_def)
qed

lemma inv_same: "inv iv P T N s s1 \<Longrightarrow> inv iv P T N s1 s2 \<Longrightarrow> inv iv P T N s s2"
  by (rule inv_trans [of iv P T N s s1 iv P T N s2]) simp_all

lemma inv_mono: "inv iv P T N s s' \<Longrightarrow> T \<subseteq> T' \<Longrightarrow> N' \<le> N \<Longrightarrow> inv iv P T' N' s s'"
  by (rule inv_trans [of iv P T' N' s s iv P T N s']) (simp_all add: inv_refl)

lemmas prim_defs = inv_def ext_def newlog_def evok_def emit_def push_def set_f_def set_c_def
  set_t_def set_d_def set_b_def createIV_def createTextNode_def documentCreateElement_def
  insertOrAppend_def setTextContent_def

lemma inv_set_f: "inv iv P T N s (set_f iv v s)"
  by (simp add: prim_defs)

lemma inv_set_c: "inv iv P T N s (set_c iv v s)"
  by (simp add: prim_defs)

lemma inv_set_t: "inv iv P T N s (set_t iv v s)"
  by (simp add: prim_defs)

lemma inv_set_d: "inv iv P T N s (set_d iv iv v s)"
  by (simp add: prim_defs)

lemma inv_createIV:
  "createIV inp i s = (c, s1) \<Longrightarrow> inv iv P T N s s1 \<and> c = nextIV s \<and> nextIV s1 = Suc (nextIV s)"
  by (auto simp: prim_defs)

lemma inv_mountText:
  "mountText iv p P nx cx svg ins s = (d, s1) \<Longrightarrow> N \<le> nextDom s
   \<Longrightarrow> inv iv P T N s s1 \<and> d = nextDom s"
  by (auto simp: mountText_def prim_defs Let_def split: if_splits)

lemma inv_setTextContent: "inv iv P T N s (setTextContent d p s)"
  by (simp add: prim_defs)

lemma inv_documentCreateElement:
  "documentCreateElement tag svg s = (d, s1) \<Longrightarrow> inv iv P T N s s1 \<and> d = nextDom s \<and> nextDom s1 = Suc (nextDom s)"
  by (auto simp: prim_defs)

lemma inv_fold_emit:
  "inv iv P T N s (fold (\<lambda>(a, b). emit (PatchProp a b d svg h)) ps s)"
proof (induction ps arbitrary: s)
  case Nil
  show ?case by (simp add: inv_refl)
next
  case (Cons p ps)
  obtain a b where p: "p = (a, b)" by (cases p)
  have "inv iv P T N s (emit (PatchProp a b d svg h) s)" by (simp add: prim_defs)
  with Cons [of "emit (PatchProp a b d svg h) s"] show ?case
    by (auto simp: p intro: inv_same)
qed

lemma inv_mountElementProps: "inv iv P T N s (mountElementProps E iv vNode d svg s)"
proof (cases "props vNode")
  case None
  then show ?thesis by (simp add: mountElementProps_def inv_refl)
next
  case (Some ps)
  show ?thesis
  proof (cases "(flags vNode AND FormElement E) > 0")
    case True
    let ?h = "isControlledFormElement E ps"
    let ?s1 = "fold (\<lambda>(a, b). emit (PatchProp a b d svg ?h)) ps s"
    have 1: "inv iv P T N s ?s1" by (rule inv_fold_emit)
    have 2: "inv iv P T N ?s1 (emit (ProcessElement (flags vNode) iv d ?h) ?s1)"
      by (simp add: prim_defs)
    from inv_same [OF 1 2] True show ?thesis
      by (simp add: mountElementProps_def Some Let_def)
  next
    case False
    with inv_fold_emit [of iv P T N s d svg False ps] show ?thesis
      by (simp add: mountElementProps_def Some Let_def)
  qed
qed

lemma inv_mountElementClassName: "inv iv P T N s (mountElementClassName vNode d svg s)"
  unfolding mountElementClassName_def
  by (auto simp: prim_defs split: option.splits)

lemma inv_mountRef: "mountRef E d val s = Inr s1 \<Longrightarrow> inv iv P T N s s1"
  unfolding mountRef_def
  by (auto simp: prim_defs split: refval.splits if_splits)

lemma inv_finishElement:
  assumes "finishElement E iv vNode d svg P nx ins s = Inr (r, s1)" and "N \<le> d"
  shows "inv iv P T N s s1 \<and> r = DNode d"
proof -
  let ?s1 = "mountElementProps E iv vNode d svg s"
  let ?s2 = "mountElementClassName vNode d svg ?s1"
  have a: "inv iv P T N s ?s2"
    by (rule inv_same [OF inv_mountElementProps inv_mountElementClassName])
  obtain s3 where m: "(if ref vNode \<noteq> RNull then mountRef E d (ref vNode) ?s2 else Inr ?s2) = Inr s3"
    and r: "s1 = (if ins then insertOrAppend P d nx (set_d iv iv (DNode d) s3) else s3)"
    and rd: "r = DNode d"
    using assms(1) unfolding finishElement_def Let_def
    by (auto split: sum.splits)
  have s3: "inv iv P T N ?s2 s3"
    using m by (auto split: if_splits intro: inv_refl inv_mountRef)
  have "inv iv P T N s3 s1"
    unfolding r using assms(2) by (simp add: prim_defs)
  with a s3 rd show ?thesis by (blast intro: inv_same)
qed

lemma inv_createClassComponentInstance:
  "createClassComponentInstance iv ty ps cx P' s = Inr (inst, s1) \<Longrightarrow> inv iv P T N s s1"
  unfolding createClassComponentInstance_def
  by (auto simp: prim_defs split: vtype.splits)

lemma inv_renderComponent:
  "renderComponent E iv vNode P' cx s = Inr (x, s1) \<Longrightarrow> inv iv P T N s s1"
  unfolding renderComponent_def createClassComponentInstance_def Let_def
  by (auto simp: prim_defs split: if_splits sum.splits option.splits vtype.splits)

lemma inv_mountClassComponentCallbacks:
  "mountClassComponentCallbacks E vNode r inst s = Inr s1 \<Longrightarrow> inv iv P T N s s1"
  unfolding mountClassComponentCallbacks_def Let_def
  by (auto simp: prim_defs split: if_splits sum.splits refval.splits)

lemma inv_mountFunctionalComponentCallbacks:
  "inv iv P T N s (mountFunctionalComponentCallbacks ps r d s)"
  unfolding mountFunctionalComponentCallbacks_def Let_def
  by (auto simp: prim_defs split: refval.splits option.splits)

lemma inv_emit_plain:
  "(case e of InsertOrAppend p n x \<Rightarrow> False | Invoke fn a \<Rightarrow> False | WroteD w t \<Rightarrow> False | _ \<Rightarrow> True)
   \<Longrightarrow> inv iv P T N s (emit e s)"
  by (auto simp: prim_defs split: event.splits)

lemma inv_finishComponent:
  assumes "finishComponent E iv vNode instOpt d P nx ins s = Inr (r, s1)"
    and "case d of DNode n \<Rightarrow> N \<le> n | _ \<Rightarrow> True"
  shows "inv iv P T N s s1 \<and> r = d"
proof -
  obtain s3 where c: "(case instOpt of
              Some inst \<Rightarrow>
                (case mountClassComponentCallbacks E vNode (ref vNode) inst s of
                   Inl e \<Rightarrow> Inl e
                 | Inr s1 \<Rightarrow>
                     (let s2 = emit (SetUPD (inst_id inst) False) s1
                      in Inr (if findDOMNodeEnabled E
                              then emit (ComponentToDOMNodeMapSet (inst_id inst) d) s2
                              else s2)))
            | None \<Rightarrow>
                Inr (mountFunctionalComponentCallbacks (propsOrEmpty vNode) (ref vNode) d s)) = Inr s3"
    and fin: "(if ins \<and> d \<noteq> DNull then
            (case d of
               DNode n \<Rightarrow> Inr (d, insertOrAppend P n nx (set_d iv iv d s3))
             | _ \<Rightarrow> Inl TypeError)
          else Inr (d, s3)) = Inr (r, s1)"
    using assms(1) unfolding finishComponent_def Let_def
    by (simp split: sum.splits)
  have r: "s1 = (if ins \<and> d \<noteq> DNull then insertOrAppend P (case d of DNode n \<Rightarrow> n) nx (set_d iv iv d s3) else s3)"
    and rd: "r = d" and dn: "ins \<and> d \<noteq> DNull \<longrightarrow> (\<exists>n. d = DNode n)"
    using fin by (auto split: if_splits jsdom.splits)
  have s3: "inv iv P T N s s3"
  proof (cases instOpt)
    case None
    with c show ?thesis by (auto intro: inv_mountFunctionalComponentCallbacks)
  next
    case (Some inst)
    with c obtain sa where sa: "mountClassComponentCallbacks E vNode (ref vNode) inst s = Inr sa"
      and s3: "s3 = (if findDOMNodeEnabled E
                     then emit (ComponentToDOMNodeMapSet (inst_id inst) d) (emit (SetUPD (inst_id inst) False) sa)
                     else emit (SetUPD (inst_id inst) False) sa)"
      by (auto simp: Let_def split: sum.splits)
    have 1: "inv iv P T N s sa" using sa by (rule inv_mountClassComponentCallbacks)
    have 2: "inv iv P T N sa (emit (SetUPD (inst_id inst) False) sa)"
      by (rule inv_emit_plain) simp
    have 3: "inv iv P T N (emit (SetUPD (inst_id inst) False) sa)
               (emit (ComponentToDOMNodeMapSet (inst_id inst) d) (emit (SetUPD (inst_id inst) False) sa))"
      by (rule inv_emit_plain) simp
    show ?thesis
      unfolding s3 using inv_same [OF 1 2] inv_same [OF inv_same [OF 1 2] 3] by simp
  qed
  have "inv iv P T N s3 s1"
    unfolding r using assms(2) dn by (auto simp: prim_defs)
  with s3 rd show ?thesis by (blast intro: inv_same)
qed

lemma inv_pushChild: "pushChild iv c s = Inr s1 \<Longrightarrow> inv iv P T N s s1"
  unfolding pushChild_def by (auto split: ivchildren.splits intro: inv_set_c)

lemma inv_finishArray: "finishArray iv isVirtual s = Inr s1 \<Longrightarrow> inv iv P T N s s1"
  unfolding finishArray_def Let_def
  by (auto simp: prim_defs split: if_splits ivchildren.splits list.splits)

subsection \<open>What a successful call of each mounter went through\<close>

lemma mountE:
  assumes "mount E iv input P nx cx svg ins s = Inr (r, s')"
  obtains (prim) p d where "input = JPrim p" "mountText iv p P nx cx svg ins s = (d, s')" "r = DNode d"
  | (vnode) v where "\<not> isStringOrNumber input" "isVNode input" "input = JVNode v"
      "mountVNode E iv v P nx cx svg ins s = Inr (r, s')"
  | (arr) "\<not> isStringOrNumber input" "\<not> isVNode input" "\<not> (\<not> production E \<and> \<not> isArray input)"
      "mountArrayChildren E iv input P nx cx svg False True s = Inr s'" "r = DNull"
  using assms
  by (subst (asm) mount.simps) (auto split: if_splits jsval.splits sum.splits prod.splits)

lemma mountVNodeE:
  assumes "mountVNode E iv vNode P nx cx svg ins s = Inr (r, s')"
  obtains (element) "0 < flags vNode AND Element E"
      "mountElement E iv vNode P nx cx svg ins s = Inr (r, s')"
  | (component) "\<not> 0 < flags vNode AND Element E" "0 < flags vNode AND Component E"
      "mountComponent E iv vNode P nx cx svg ins s = Inr (r, s')"
  | (portal) "\<not> 0 < flags vNode AND Element E" "\<not> 0 < flags vNode AND Component E"
      "0 < flags vNode AND Portal E"
      "mountPortal E iv vNode P nx cx False ins s = Inr (r, s')"
  | (none) "r = DUndefined" "s' = s"
  using assms
  by (subst (asm) mountVNode.simps) (auto split: if_splits)

lemma mountPortalE:
  assumes "mountPortal E iv vNode P nx cx svg ins s = Inr (r, s')"
  obtains childIV s1 target r3 s3 d where
    "createIV (children vNode) 0 s = (childIV, s1)"
    "type vNode = Container target"
    "mount E childIV (children vNode) target None cx svg True (set_c iv (COne childIV) s1)
       = Inr (r3, s3)"
    "mountText iv (PStr []) P nx cx svg ins s3 = (d, s')" "r = DNode d"
  using assms
  by (subst (asm) mountPortal.simps)
     (auto simp: Let_def split: prod.splits vtype.splits sum.splits)

lemma mountElementE:
  assumes "mountElement E iv vNode P nx cx svg ins s = Inr (r, s')"
  obtains tag d s1 s6 where
    "type vNode = Tag tag"
    "documentCreateElement tag (svg \<or> 0 < flags vNode AND SvgElement E) s = (d, s1)"
    "(isInvalid (children vNode) \<and> s6 = set_f iv HasInvalidChildren s1)
     \<or> (\<exists>p. children vNode = JPrim p \<and> s6 = set_f iv HasTextChildren (setTextContent d p s1))
     \<or> (\<exists>cv childIV s2 r5. \<not> isInvalid (children vNode) \<and> \<not> isStringOrNumber (children vNode)
           \<and> isVNode (children vNode) \<and> children vNode = JVNode cv
           \<and> createIV (children vNode) 0 s1 = (childIV, s2)
           \<and> mountVNode E childIV cv d None cx
                ((svg \<or> 0 < flags vNode AND SvgElement E) \<and> tag \<noteq> ''foreignObject'') True
                (set_f iv HasBasicChildren (set_c iv (COne childIV) s2)) = Inr (r5, s6))
     \<or> (\<not> isInvalid (children vNode) \<and> \<not> isStringOrNumber (children vNode)
           \<and> \<not> isVNode (children vNode)
           \<and> mountArrayChildren E iv (children vNode) d None cx
                ((svg \<or> 0 < flags vNode AND SvgElement E) \<and> tag \<noteq> ''foreignObject'') False False s1
               = Inr s6)"
    "finishElement E iv vNode d (svg \<or> 0 < flags vNode AND SvgElement E) P nx ins s6 = Inr (r, s')"
  using assms
  apply (subst (asm) mountElement.simps)
  apply (simp only: Let_def split: vtype.splits prod.splits sum.splits)
  apply (auto split: if_splits jsval.splits sum.splits prod.splits)
  done

lemma mountArrayChildrenE:
  assumes "mountArrayChildren E iv chn P nx cx svg fk virt s = Inr s'"
  obtains s2 where
    "(\<exists>xs. chn = JArr xs
        \<and> mountArrayLoop E iv xs 0 True P nx cx svg fk
             (set_f iv HasInvalidChildren (set_c iv CNull s)) = Inr s2)
     \<or> (\<not> isArray chn \<and> chn \<noteq> JNull \<and> chn \<noteq> JUndefined
          \<and> s2 = set_f iv HasInvalidChildren (set_c iv CNull s))"
    "finishArray iv virt s2 = Inr s'"
  using assms
  by (subst (asm) mountArrayChildren.simps)
     (auto simp: Let_def split: jsval.splits sum.splits)

lemma mountArrayLoop_Nil:
  "mountArrayLoop E iv [] i fv P nx cx svg fk s = Inr s"
  by (simp add: mountArrayLoop.simps)

lemma mountArrayLoop_invalid:
  "isInvalid child \<Longrightarrow>
   mountArrayLoop E iv (child # rest) i fv P nx cx svg fk s
   = mountArrayLoop E iv rest (Suc i) fv P nx cx svg fk s"
  by (simp add: mountArrayLoop.simps)

lemma mountArrayLoop_validE:
  assumes "mountArrayLoop E iv (child # rest) i fv P nx cx svg fk s = Inr s'"
    and "\<not> isInvalid child"
  obtains childIV s2 s3 r s4 where
    "createIV child i (firstValidStep iv fv fk child s) = (childIV, s2)"
    "pushChild iv childIV s2 = Inr s3"
    "mount E childIV child P nx cx svg True s3 = Inr (r, s4)"
    "mountArrayLoop E iv rest (Suc i) False P nx cx svg fk s4 = Inr s'"
  using assms
  by (subst (asm) mountArrayLoop.simps)
     (auto simp: Let_def firstValidStep_def split: prod.splits sum.splits)

lemma mountComponentE:
  assumes "mountComponent E iv vNode P nx cx svg ins s = Inr (r, s')"
  obtains instOpt renderOutput cx' s1 d s7 where
    "renderComponent E iv vNode P cx s = Inr ((instOpt, renderOutput, cx'), s1)"
    "(isInvalid renderOutput \<and> d = DNull \<and> s7 = set_f iv HasInvalidChildren s1)
     \<or> (\<exists>childIV s3 s6. \<not> isInvalid renderOutput
           \<and> createIV renderOutput 0 (set_f iv HasBasicChildren s1) = (childIV, s3)
           \<and> mount E childIV renderOutput P nx cx' svg False
                (set_b childIV iv (set_c iv (COne childIV) s3)) = Inr (d, s6)
           \<and> s7 = set_d iv childIV d s6)"
    "finishComponent E iv vNode instOpt d P nx ins s7 = Inr (r, s')"
  using assms
  apply (subst (asm) mountComponent.simps)
  apply (simp only: Let_def split: prod.splits sum.splits)
  apply (auto split: if_splits sum.splits prod.splits)
  done

lemma containers_children: "containers (children v) \<subseteq> containersV v"
  by (cases v) auto

lemma containers_type: "type v = Container target \<Longrightarrow> target \<in> containersV v"
  by (cases v) auto

lemma containers_child_vnode: "children v = JVNode cv \<Longrightarrow> containersV cv \<subseteq> containersV v"
  by (cases v) auto

lemma containers_renderOutput:
  "renderComponent E iv vNode P cx s = Inr ((instOpt, renderOutput, cx'), s1)
   \<Longrightarrow> containers renderOutput \<subseteq> containersV vNode"
  by (cases vNode; cases "type vNode")
     (auto simp: renderComponent_def createClassComponentInstance_def Let_def
           split: if_splits option.splits sum.splits)

lemma inv_set_d_child:
  assumes "inv iv P T N s s6" "nextIV s \<le> c" "c < nextIV s6" "iv_b (ivs s6 c) = Some iv"
  shows "inv iv P T N s (set_d iv c d s6)"
proof -
  have e: "ext iv s s6" and ev: "\<forall>e \<in> set (newlog s s6). evok P T N s s6 e"
    using assms(1) by (simp_all add: inv_def)
  have p: "prefix (log s) (log s6)" using e by (simp add: ext_def)
  have e': "ext iv s (set_d iv c d s6)"
    using e assms(2) by (auto simp: ext_def set_d_def)
  have n: "newlog s (set_d iv c d s6) = newlog s s6 @ [WroteD iv c]"
    using p by (auto simp: newlog_def set_d_def prefix_def)
  have "evok P T N s (set_d iv c d s6) ev" if "ev \<in> set (newlog s s6)" for ev
    using ev that by (auto simp: evok_def set_d_def split: event.splits arg.splits)
  moreover have "evok P T N s (set_d iv c d s6) (WroteD iv c)"
    using assms(2-4) by (simp add: evok_def set_d_def)
  ultimately show ?thesis
    using e' n by (auto simp: inv_def)
qed

lemma nextDom_mono: "inv iv P T N s s' \<Longrightarrow> nextDom s \<le> nextDom s'"
  by (simp add: inv_def ext_def)

lemma nextIV_mono: "inv iv P T N s s' \<Longrightarrow> nextIV s \<le> nextIV s'"
  by (simp add: inv_def ext_def)

lemma mount_inv:
  shows "mount E iv input P nx cx svg ins s = Inr (r, s')
       \<Longrightarrow> inv iv P (containers input) (nextDom s) s s'
           \<and> (case r of DNode n \<Rightarrow> nextDom s \<le> n | _ \<Rightarrow> True)"
  and "mountVNode E iv vNode P nx cx svg ins s = Inr (r, s')
       \<Longrightarrow> inv iv P (containersV vNode) (nextDom s) s s'
           \<and> (case r of DNode n \<Rightarrow> nextDom s \<le> n | _ \<Rightarrow> True)"
  and "mountPortal E iv vNode P nx cx svg ins s = Inr (r, s')
       \<Longrightarrow> inv iv P (containersV vNode) (nextDom s) s s'
           \<and> (case r of DNode n \<Rightarrow> nextDom s \<le> n | _ \<Rightarrow> True)"
  and "mountElement E iv vNode P nx cx svg ins s = Inr (r, s')
       \<Longrightarrow> inv iv P (containersV vNode) (nextDom s) s s'
           \<and> (case r of DNode n \<Rightarrow> nextDom s \<le> n | _ \<Rightarrow> True)"
  and "mountArrayChildren E iv chn P nx cx svg fk virt s = Inr s''
       \<Longrightarrow> inv iv P (containers chn) (nextDom s) s s''"
  and "mountArrayLoop E iv xs i fv P nx cx svg fk s = Inr s''
       \<Longrightarrow> inv iv P (\<Union>x \<in> set xs. containers x) (nextDom s) s s''"
  and "mountComponent E iv vNode P nx cx svg ins s = Inr (r, s')
       \<Longrightarrow> inv iv P (containersV vNode) (nextDom s) s s'
           \<and> (case r of DNode n \<Rightarrow> nextDom s \<le> n | _ \<Rightarrow> True)"
proof (induction E iv input P nx cx svg ins s and E iv vNode P nx cx svg ins s
    and E iv vNode P nx cx svg ins s and E iv vNode P nx cx svg ins s
    and E iv chn P nx cx svg fk virt s and E iv xs i fv P nx cx svg fk s
    and E iv vNode P nx cx svg ins s
    arbitrary: r s' and r s' and r s' and r s' and s'' and s'' and r s'
    rule: mount_mountVNode_mountPortal_mountElement_mountArrayChildren_mountArrayLoop_mountComponent.induct)
  case (1 E iv input P nx cx svg ins s)
  from "1.prems" show ?case
  proof (cases rule: mountE)
    case (prim p d)
    from inv_mountText [OF prim(2) order_refl] prim(3) show ?thesis by simp
  next
    case (vnode v)
    from "1.IH"(1) [OF vnode] show ?thesis by (simp add: vnode(3))
  next
    case arr
    from "1.IH"(2) [OF arr(1-4)] arr(5) show ?thesis by simp
  qed
next
  case (2 E iv vNode P nx cx svg ins s)
  from "2.prems" show ?case
  proof (cases rule: mountVNodeE)
    case element
    from "2.IH"(1) [OF element] show ?thesis .
  next
    case component
    from "2.IH"(2) [OF component] show ?thesis .
  next
    case portal
    from "2.IH"(3) [OF portal] show ?thesis .
  next
    case none
    then show ?thesis by (simp add: inv_refl)
  qed
next
  case (3 E iv vNode P nx cx svg ins s)
  let ?T = "containersV vNode"
  let ?N = "nextDom s"
  from "3.prems" obtain childIV s1 target r3 s3 d where
    c: "createIV (children vNode) 0 s = (childIV, s1)"
    and ty: "type vNode = Container target"
    and m: "mount E childIV (children vNode) target None cx svg True (set_c iv (COne childIV) s1)
       = Inr (r3, s3)"
    and t: "mountText iv (PStr []) P nx cx svg ins s3 = (d, s')"
    and rd: "r = DNode d"
    by (rule mountPortalE)
  let ?s2 = "set_c iv (COne childIV) s1"
  have 1: "inv iv P ?T ?N s s1" and cn: "childIV = nextIV s"
    using inv_createIV [OF c] by simp_all
  have 2: "inv iv P ?T ?N s ?s2"
    using 1 inv_set_c by (rule inv_same)
  have 3: "inv childIV target (containers (children vNode)) (nextDom ?s2) ?s2 s3"
    using "3.IH" [OF refl c [symmetric] refl ty m] by simp
  have 4: "inv iv P ?T ?N s s3"
    using 2 3
    by (rule inv_trans)
       (use nextDom_mono [OF 2] in \<open>simp_all add: cn containers_type [OF ty] containers_children\<close>)
  have 5: "inv iv P ?T ?N s3 s'" and dn: "d = nextDom s3"
    using inv_mountText [OF t nextDom_mono [OF 4]] by simp_all
  from inv_same [OF 4 5] nextDom_mono [OF 4] show ?case by (simp add: rd dn)
next
  case (4 E iv vNode P nx cx svg ins s)
  let ?T = "containersV vNode"
  let ?N = "nextDom s"
  let ?svg = "svg \<or> 0 < flags vNode AND SvgElement E"
  from "4.prems" obtain tag d s1 s6 where
    ty: "type vNode = Tag tag"
    and dc: "documentCreateElement tag ?svg s = (d, s1)"
    and ch: "(isInvalid (children vNode) \<and> s6 = set_f iv HasInvalidChildren s1)
     \<or> (\<exists>p. children vNode = JPrim p \<and> s6 = set_f iv HasTextChildren (setTextContent d p s1))
     \<or> (\<exists>cv childIV s2 r5. \<not> isInvalid (children vNode) \<and> \<not> isStringOrNumber (children vNode)
           \<and> isVNode (children vNode) \<and> children vNode = JVNode cv
           \<and> createIV (children vNode) 0 s1 = (childIV, s2)
           \<and> mountVNode E childIV cv d None cx (?svg \<and> tag \<noteq> ''foreignObject'') True
                (set_f iv HasBasicChildren (set_c iv (COne childIV) s2)) = Inr (r5, s6))
     \<or> (\<not> isInvalid (children vNode) \<and> \<not> isStringOrNumber (children vNode)
           \<and> \<not> isVNode (children vNode)
           \<and> mountArrayChildren E iv (children vNode) d None cx
                (?svg \<and> tag \<noteq> ''foreignObject'') False False s1 = Inr s6)"
    and fin: "finishElement E iv vNode d ?svg P nx ins s6 = Inr (r, s')"
    by (rule mountElementE)
  have 1: "inv iv P ?T ?N s s1" and dn: "d = nextDom s"
    using inv_documentCreateElement [OF dc] by simp_all
  have 6: "inv iv P ?T ?N s s6"
    using ch
  proof (elim disjE exE conjE)
    assume "s6 = set_f iv HasInvalidChildren s1"
    then show ?thesis using inv_same [OF 1 inv_set_f] by simp
  next
    fix p assume "s6 = set_f iv HasTextChildren (setTextContent d p s1)"
    then show ?thesis
      using inv_same [OF 1 inv_same [OF inv_setTextContent inv_set_f]] by simp
  next
    fix cv childIV s2 r5
    assume a: "\<not> isInvalid (children vNode)" "\<not> isStringOrNumber (children vNode)"
      "isVNode (children vNode)" "children vNode = JVNode cv"
      and c: "createIV (children vNode) 0 s1 = (childIV, s2)"
      and m: "mountVNode E childIV cv d None cx (?svg \<and> tag \<noteq> ''foreignObject'') True
                (set_f iv HasBasicChildren (set_c iv (COne childIV) s2)) = Inr (r5, s6)"
    let ?s4 = "set_f iv HasBasicChildren (set_c iv (COne childIV) s2)"
    have i1: "inv iv P ?T ?N s1 s2" and cn: "childIV = nextIV s1"
      using inv_createIV [OF c] by simp_all
    have i2: "inv iv P ?T ?N s ?s4"
      by (rule inv_same [OF 1 inv_same [OF i1 inv_same [OF inv_set_c inv_set_f]]])
    have i3: "inv childIV d (containersV cv) (nextDom ?s4) ?s4 s6"
      using "4.IH"(1) [OF refl ty refl dc [symmetric] refl a(1,2) refl a(3,4) refl c [symmetric]
          refl refl m] by simp
    show ?thesis
      using i2 i3
    proof (rule inv_trans)
      show "childIV = iv \<or> nextIV s \<le> childIV" using nextIV_mono [OF 1] by (simp add: cn)
      show "containersV cv \<subseteq> ?T" by (rule containers_child_vnode [OF a(4)])
      show "d = P \<or> d \<in> ?T \<or> nextDom s \<le> d" by (simp add: dn)
      show "?N \<le> nextDom ?s4" by (rule nextDom_mono [OF i2])
    qed
  next
    assume a: "\<not> isInvalid (children vNode)" "\<not> isStringOrNumber (children vNode)"
      "\<not> isVNode (children vNode)"
      and m: "mountArrayChildren E iv (children vNode) d None cx
                (?svg \<and> tag \<noteq> ''foreignObject'') False False s1 = Inr s6"
    have i3: "inv iv d (containers (children vNode)) (nextDom s1) s1 s6"
      using "4.IH"(2) [OF refl ty refl dc [symmetric] refl a(1,2) refl a(3) m] .
    show ?thesis
      using 1 i3
      by (rule inv_trans) (simp_all add: dn containers_children nextDom_mono [OF 1])
  qed
  from inv_finishElement [OF fin, where N = ?N and T = ?T] inv_same [OF 6] show ?case
    by (simp add: dn)
next
  case (5 E iv chn P nx cx svg fk virt s)
  let ?T = "containers chn"
  let ?N = "nextDom s"
  let ?s1 = "set_f iv HasInvalidChildren (set_c iv CNull s)"
  from "5.prems" obtain s2 where
    lp: "(\<exists>xs. chn = JArr xs
        \<and> mountArrayLoop E iv xs 0 True P nx cx svg fk ?s1 = Inr s2)
     \<or> (\<not> isArray chn \<and> chn \<noteq> JNull \<and> chn \<noteq> JUndefined \<and> s2 = ?s1)"
    and fin: "finishArray iv virt s2 = Inr s''"
    by (rule mountArrayChildrenE)
  have 1: "inv iv P ?T ?N s ?s1"
    by (rule inv_same [OF inv_set_c inv_set_f])
  have 2: "inv iv P ?T ?N s s2"
    using lp
  proof (elim disjE exE conjE)
    fix xs assume x: "chn = JArr xs"
      and m: "mountArrayLoop E iv xs 0 True P nx cx svg fk ?s1 = Inr s2"
    have "inv iv P (\<Union>x \<in> set xs. containers x) (nextDom ?s1) ?s1 s2"
      using "5.IH" [OF refl x m] .
    with 1 show ?thesis
      by (rule inv_trans) (simp_all add: x nextDom_mono [OF 1])
  next
    assume "s2 = ?s1"
    with 1 show ?thesis by simp
  qed
  from 2 inv_finishArray [OF fin] show ?case by (rule inv_same)
next
  case (6 E iv i fv P nx cx svg fk s)
  then show ?case by (simp add: mountArrayLoop_Nil inv_refl)
next
  case (7 E iv child rest i fv P nx cx svg fk s)
  let ?T = "\<Union>x \<in> set (child # rest). containers x"
  let ?N = "nextDom s"
  show ?case
  proof (cases "isInvalid child")
    case True
    with "7.prems" have m: "mountArrayLoop E iv rest (Suc i) fv P nx cx svg fk s = Inr s''"
      by (simp add: mountArrayLoop_invalid)
    from True have "\<not> \<not> isInvalid child" by simp
    from "7.IH"(3) [OF this m] show ?thesis
      by (rule inv_mono) auto
  next
    case False
    from "7.prems" False obtain childIV s2 s3 r s4 where
      c: "createIV child i (firstValidStep iv fv fk child s) = (childIV, s2)"
      and pc: "pushChild iv childIV s2 = Inr s3"
      and m: "mount E childIV child P nx cx svg True s3 = Inr (r, s4)"
      and l: "mountArrayLoop E iv rest (Suc i) False P nx cx svg fk s4 = Inr s''"
      by (rule mountArrayLoop_validE)
    let ?s1 = "firstValidStep iv fv fk child s"
    have 1: "inv iv P ?T ?N s ?s1"
      unfolding firstValidStep_def
      by (auto intro: inv_refl inv_same [OF inv_set_c inv_set_f])
    have n1: "nextIV ?s1 = nextIV s"
      by (simp add: firstValidStep_def set_f_def set_c_def)
    have 2: "inv iv P ?T ?N ?s1 s2" and cn: "childIV = nextIV ?s1"
      using inv_createIV [OF c] by simp_all
    have 3: "inv iv P ?T ?N s s3"
      by (rule inv_same [OF 1 inv_same [OF 2 inv_pushChild [OF pc]]])
    have c': "createIV child i (if fv then set_f iv (if fk \<or> hasKey child then HasKeyedChildren
                 else HasNonKeydChildren) (set_c iv (CMany []) s) else s) = (childIV, s2)"
      using c by (simp add: firstValidStep_def)
    have 4: "inv childIV P (containers child) (nextDom s3) s3 s4"
      using "7.IH"(1) [OF False refl refl c' [symmetric] pc m] by simp
    have 5: "inv iv P ?T ?N s s4"
      using 3 4 by (rule inv_trans) (simp_all add: cn n1 nextDom_mono [OF 3])
    have 6: "inv iv P (\<Union>x \<in> set rest. containers x) (nextDom s4) s4 s''"
      using "7.IH"(2) [OF False refl refl c' [symmetric] pc m refl l] .
    show ?thesis
      using 5 6 by (rule inv_trans) (auto simp: nextDom_mono [OF 5])
  qed
next
  case (8 E iv vNode P nx cx svg ins s)
  let ?T = "containersV vNode"
  let ?N = "nextDom s"
  from "8.prems" obtain instOpt renderOutput cx' s1 d s7 where
    rc: "renderComponent E iv vNode P cx s = Inr ((instOpt, renderOutput, cx'), s1)"
    and ch: "(isInvalid renderOutput \<and> d = DNull \<and> s7 = set_f iv HasInvalidChildren s1)
     \<or> (\<exists>childIV s3 s6. \<not> isInvalid renderOutput
           \<and> createIV renderOutput 0 (set_f iv HasBasicChildren s1) = (childIV, s3)
           \<and> mount E childIV renderOutput P nx cx' svg False
                (set_b childIV iv (set_c iv (COne childIV) s3)) = Inr (d, s6)
           \<and> s7 = set_d iv childIV d s6)"
    and fin: "finishComponent E iv vNode instOpt d P nx ins s7 = Inr (r, s')"
    by (rule mountComponentE)
  have 1: "inv iv P ?T ?N s s1"
    using rc by (rule inv_renderComponent)
  have n1: "nextIV s \<le> nextIV s1" using 1 by (rule nextIV_mono)
  have 7: "inv iv P ?T ?N s s7 \<and> (case d of DNode n \<Rightarrow> ?N \<le> n | _ \<Rightarrow> True)"
    using ch
  proof (elim disjE exE conjE)
    assume "s7 = set_f iv HasInvalidChildren s1" "d = DNull"
    with inv_same [OF 1 inv_set_f] show ?thesis by simp
  next
    fix childIV s3 s6
    assume ni: "\<not> isInvalid renderOutput"
      and c: "createIV renderOutput 0 (set_f iv HasBasicChildren s1) = (childIV, s3)"
      and m: "mount E childIV renderOutput P nx cx' svg False
                (set_b childIV iv (set_c iv (COne childIV) s3)) = Inr (d, s6)"
      and s7: "s7 = set_d iv childIV d s6"
    let ?s5 = "set_b childIV iv (set_c iv (COne childIV) s3)"
    have cn: "childIV = nextIV s1"
      using c by (auto simp: createIV_def set_f_def)
    have 2: "inv iv P ?T ?N (set_f iv HasBasicChildren s1) ?s5"
      using c by (auto simp: prim_defs)
    have 3: "inv iv P ?T ?N s ?s5"
      by (rule inv_same [OF 1 inv_same [OF inv_set_f 2]])
    have b5: "iv_b (ivs ?s5 childIV) = Some iv" and n5: "childIV < nextIV ?s5"
      using c by (auto simp: createIV_def set_f_def set_c_def set_b_def)
    have 4: "inv childIV P (containers renderOutput) (nextDom ?s5) ?s5 s6"
      and f4: "case d of DNode n \<Rightarrow> nextDom ?s5 \<le> n | _ \<Rightarrow> True"
      using "8.IH" [OF rc refl refl refl ni refl refl c [symmetric] refl refl m] by simp_all
    from 4 have e: "ext childIV ?s5 s6" by (simp add: inv_def)
    have b6: "iv_b (ivs s6 childIV) = Some iv" and n6: "childIV < nextIV s6"
      using e b5 n5 by (auto simp: ext_def)
    have 6: "inv iv P ?T ?N s s6"
      using 3 4
      by (rule inv_trans)
         (use n1 nextDom_mono [OF 3] in \<open>simp_all add: cn containers_renderOutput [OF rc]\<close>)
    have "inv iv P ?T ?N s s7"
      unfolding s7 using 6 _ n6 b6
      by (rule inv_set_d_child) (simp add: cn n1)
    moreover have "case d of DNode n \<Rightarrow> ?N \<le> n | _ \<Rightarrow> True"
      using f4 nextDom_mono [OF 3] by (auto split: jsdom.splits)
    ultimately show ?thesis by simp
  qed
  from inv_finishComponent [OF fin, where N = ?N and T = ?T] 7 inv_same [of iv P ?T ?N s s7 s'] show ?case
    by auto
qed

lemma Inr_projr: "\<not> isl x \<Longrightarrow> x = Inr (fst (projr x), snd (projr x))"
  by (cases x) auto

lemma mountText_log:
  "mountText iv p P nx cx svg ins s = (d, s1) \<Longrightarrow>
   d = nextDom s \<and> lifecycle s1 = lifecycle s
   \<and> log s1 = log s @ CreateTextNode d p # (if ins then [WroteD iv iv, InsertOrAppend P d nx] else [])"
  by (auto simp: mountText_def prim_defs Let_def split: if_splits)

lemma inv_prefix: "inv iv P T N s s' \<Longrightarrow> prefix (log s) (log s')"
  by (simp add: inv_def ext_def)

lemma inv_log: "inv iv P T N s s' \<Longrightarrow> log s' = log s @ newlog s s'"
  by (auto simp: inv_def ext_def newlog_def prefix_def)

lemma newlog_trans:
  "inv iv P T N s s1 \<Longrightarrow> log s2 = log s1 @ es \<Longrightarrow> newlog s s2 = newlog s s1 @ es"
  by (auto simp: inv_def ext_def newlog_def prefix_def)

lemma portalRouted_isVNode: "portalRouted E v \<Longrightarrow> isVNode (JVNode v)"
  by (auto simp: portalRouted_def intro!: gr0I)

lemma mountVNode_portal:
  "portalRouted E v \<Longrightarrow>
   mountVNode E iv v P nx cx svg ins s = mountPortal E iv v P nx cx False ins s"
  by (simp add: mountVNode.simps portalRouted_def)

lemma mount_portal:
  "portalRouted E v \<Longrightarrow>
   mount E iv (JVNode v) P nx cx svg ins s = mountPortal E iv v P nx cx False ins s"
  using portalRouted_isVNode [of E v]
  by (simp add: mount.simps mountVNode_portal)

section \<open>Inputs that are no primitive, no View Node and no array\<close>

text \<open>
  C8: in a development build the dispatcher throws the invalid-input error for an object
  that is no View Node, and for a View Node whose flags are 0. In a production build it
  throws nothing for them, and nothing fails afterwards either: they are mounted as an
  array without entries, and the dispatcher returns null. Only null and undefined fail at
  the next operation, reading \<open>length\<close>.
\<close>

theorem mount_of_object_by_build_mode:
  "isl (mount devEnv 0 JObj 1 None 0 False True initState)
   \<and> projl (mount devEnv 0 JObj 1 None 0 False True initState) = InvalidInputError
   \<and> projl (mount devEnv 0 (JVNode (VNode 0 (Tag ''div'') None JNull None RNull None)) 1 None 0
        False True initState) = InvalidInputError
   \<and> isl (mount prodEnv 0 JNull 1 None 0 False True initState)
   \<and> projl (mount prodEnv 0 JNull 1 None 0 False True initState) = TypeError
   \<and> \<not> isl (mount prodEnv 0 JObj 1 None 0 False True initState)
   \<and> fst (projr (mount prodEnv 0 JObj 1 None 0 False True initState)) = DNull
   \<and> log (snd (projr (mount prodEnv 0 JObj 1 None 0 False True initState))) = [WroteD 0 0]
   \<and> \<not> isl (mount prodEnv 0 (JVNode (VNode 0 (Tag ''div'') None JNull None RNull None)) 1 None
              0 False True initState)
   \<and> ivs (snd (projr (mount prodEnv 0 JObj 1 None 0 False True initState))) 0
     = emptyIV\<lparr>iv_f := Some HasInvalidChildren, iv_t := Some IsVirtualArray\<rparr>"
  by code_simp

section \<open>Who assigns an IV's DOM node\<close>

text \<open>
  C3 as stated fails: mounting this component into IV 0 creates the child IV 1 for the
  render output, and the Component Mounter, which received IV 0, assigns the \<open>d\<close> of IV 1.
\<close>

theorem component_writes_child_dom_counterexample:
  "\<not> isl (mount devEnv 0 (JVNode textComponent) 1 None 0 False True initState)
   \<and> log (snd (projr (mount devEnv 0 (JVNode textComponent) 1 None 0 False True initState)))
     = [CallFunction 3 [] 0, CreateTextNode 10 (PStr ''a''), WroteD 0 1, WroteD 0 0,
        InsertOrAppend 1 10 None]"
  by code_simp

text \<open>
  C3, amended: during a mount every assignment to an IV's \<open>d\<close> is made by the mounter that
  received that IV, or it is an assignment to an IV created during this mount, made by the
  mounter whose IV is the back-reference of that IV. The back-reference is set by
  mountComponent only, on the child IV it creates for its render output.
\<close>

theorem dom_written_by_owner_or_component:
  "mount E iv input P nx cx svg ins s = Inr (r, s') \<longrightarrow>
     (\<forall>w t. WroteD w t \<in> set (newlog s s') \<longrightarrow>
        w = t \<or> (nextIV s \<le> t \<and> t < nextIV s' \<and> iv_b (ivs s' t) = Some w))"
proof (intro impI allI)
  fix w t
  assume "mount E iv input P nx cx svg ins s = Inr (r, s')"
    and e: "WroteD w t \<in> set (newlog s s')"
  then have "inv iv P (containers input) (nextDom s) s s'"
    by (simp add: mount_inv(1))
  with e have "evok P (containers input) (nextDom s) s s' (WroteD w t)"
    by (simp add: inv_def)
  then show "w = t \<or> (nextIV s \<le> t \<and> t < nextIV s' \<and> iv_b (ivs s' t) = Some w)"
    by (simp add: evok_def)
qed

theorem dom_written_by_owner_or_component_witness:
  "\<not> isl (mount devEnv 0 (JVNode textComponent) 1 None 0 False True initState)
   \<and> WroteD 0 1 \<in> set (newlog initState
        (snd (projr (mount devEnv 0 (JVNode textComponent) 1 None 0 False True initState))))
   \<and> iv_b (ivs (snd (projr (mount devEnv 0 (JVNode textComponent) 1 None 0 False True
        initState))) 1) = Some 0"
proof -
  let ?X = "mount devEnv 0 (JVNode textComponent) 1 None 0 False True initState"
  have a: "\<not> isl ?X" by code_simp
  have b: "WroteD 0 1 \<in> set (newlog initState (snd (projr ?X)))" by code_simp
  from dom_written_by_owner_or_component [of devEnv 0 "JVNode textComponent" 1 None 0 False True
      initState "fst (projr ?X)" "snd (projr ?X)"] Inr_projr [OF a] b
  have "iv_b (ivs (snd (projr ?X)) 1) = Some 0" by auto
  with a b show ?thesis by simp
qed

section \<open>The ref of an element\<close>

lemma lifecycle_fold_emit:
  "lifecycle (fold (\<lambda>(a, b). emit (g a b)) ps s) = lifecycle s"
  by (induction ps arbitrary: s) (auto simp: emit_def)

lemma lifecycle_mountElementProps:
  "lifecycle (mountElementProps E iv vNode d svg s) = lifecycle s"
  by (auto simp: mountElementProps_def Let_def lifecycle_fold_emit emit_def split: option.splits)

lemma lifecycle_mountElementClassName:
  "lifecycle (mountElementClassName vNode d svg s) = lifecycle s"
  by (auto simp: mountElementClassName_def emit_def split: option.splits)

lemma newlogI: "log s' = log s @ es \<Longrightarrow> newlog s s' = es"
  by (simp add: newlog_def)

lemma inv_lifecycle: "inv iv P T N s s' \<Longrightarrow> \<exists>l. lifecycle s' = lifecycle s @ l"
  by (auto simp: inv_def ext_def prefix_def)

lemma mountElement_children_inv:
  assumes dc: "documentCreateElement tag svg' s = (d, s1)"
    and ch: "(isInvalid (children vNode) \<and> s6 = set_f iv HasInvalidChildren s1)
     \<or> (\<exists>p. children vNode = JPrim p \<and> s6 = set_f iv HasTextChildren (setTextContent d p s1))
     \<or> (\<exists>cv childIV s2 r5. \<not> isInvalid (children vNode) \<and> \<not> isStringOrNumber (children vNode)
           \<and> isVNode (children vNode) \<and> children vNode = JVNode cv
           \<and> createIV (children vNode) 0 s1 = (childIV, s2)
           \<and> mountVNode E childIV cv d None cx svgc True
                (set_f iv HasBasicChildren (set_c iv (COne childIV) s2)) = Inr (r5, s6))
     \<or> (\<not> isInvalid (children vNode) \<and> \<not> isStringOrNumber (children vNode)
           \<and> \<not> isVNode (children vNode)
           \<and> mountArrayChildren E iv (children vNode) d None cx svgc False False s1 = Inr s6)"
  shows "inv iv P (insert d (containersV vNode)) (Suc d) s1 s6"
proof -
  let ?T = "insert d (containersV vNode)"
  let ?N = "Suc d"
  have n1: "nextDom s1 = Suc d"
    using dc by (auto simp: documentCreateElement_def)
  show ?thesis
    using ch
  proof (elim disjE exE conjE)
    assume "s6 = set_f iv HasInvalidChildren s1"
    then show ?thesis by (simp add: inv_set_f)
  next
    fix p assume "s6 = set_f iv HasTextChildren (setTextContent d p s1)"
    then show ?thesis
      using inv_same [OF inv_setTextContent inv_set_f] by simp
  next
    fix cv childIV s2 r5
    assume a: "children vNode = JVNode cv"
      and c: "createIV (children vNode) 0 s1 = (childIV, s2)"
      and m: "mountVNode E childIV cv d None cx svgc True
                (set_f iv HasBasicChildren (set_c iv (COne childIV) s2)) = Inr (r5, s6)"
    let ?s4 = "set_f iv HasBasicChildren (set_c iv (COne childIV) s2)"
    have i1: "inv iv P ?T ?N s1 s2" and cn: "childIV = nextIV s1"
      using inv_createIV [OF c] by simp_all
    have i2: "inv iv P ?T ?N s1 ?s4"
      by (rule inv_same [OF i1 inv_same [OF inv_set_c inv_set_f]])
    have i3: "inv childIV d (containersV cv) (nextDom ?s4) ?s4 s6"
      using mount_inv(2) [OF m] by simp
    have n4: "nextDom ?s4 = Suc d"
      using c n1 by (auto simp: createIV_def set_f_def set_c_def)
    show ?thesis
      using i2 i3
    proof (rule inv_trans)
      show "childIV = iv \<or> nextIV s1 \<le> childIV" by (simp add: cn)
      show "containersV cv \<subseteq> ?T" using containers_child_vnode [OF a] by auto
      show "d = P \<or> d \<in> ?T \<or> nextDom s1 \<le> d" by simp
      show "?N \<le> nextDom ?s4" by (simp add: n4)
    qed
  next
    assume m: "mountArrayChildren E iv (children vNode) d None cx svgc False False s1 = Inr s6"
    have i3: "inv iv d (containers (children vNode)) (nextDom s1) s1 s6"
      using mount_inv(5) [OF m] .
    show ?thesis
      by (rule inv_trans [OF inv_refl i3])
         (use containers_children [of vNode] in \<open>auto simp: n1\<close>)
  qed
qed

text \<open>
  C2 as stated fails: mounting this element does not invoke its ref 7. The mount call
  only pushes the callback on the lifecycle queue, where it is when the call returns.
\<close>

theorem element_ref_not_invoked_counterexample:
  "\<not> isl (mountElement devEnv 0 divWithRef 1 None 0 False True initState)
   \<and> fst (projr (mountElement devEnv 0 divWithRef 1 None 0 False True initState)) = DNode 10
   \<and> log (snd (projr (mountElement devEnv 0 divWithRef 1 None 0 False True initState)))
     = [CreateElement 10 ''div'' False, Pushed (RefCallback 7 10), WroteD 0 0,
        InsertOrAppend 1 10 None]
   \<and> lifecycle (snd (projr (mountElement devEnv 0 divWithRef 1 None 0 False True initState)))
     = [RefCallback 7 10]"
  by code_simp

text \<open>
  C2, amended: for every element View Node whose ref is a callback, the element's mount
  call does not invoke the ref (during a mount no application function is invoked with a
  DOM node). It pushes on the lifecycle queue a callback that invokes the ref with the
  created DOM element. The push comes after everything of the element's construction
  (its creation, its subtree, props and className, and every push of the subtree), before
  which the element has been inserted nowhere, and before the element's own insertion.
\<close>

theorem element_ref_deferred:
  "mountElement E iv vNode P nx cx svg ins s = Inr (r, s') \<and> ref vNode = RFun fn \<longrightarrow>
     (\<exists>tag svg' rest l.
        r = DNode (nextDom s)
        \<and> newlog s s' = CreateElement (nextDom s) tag svg' # rest
             @ Pushed (RefCallback fn (nextDom s))
             # (if ins then [WroteD iv iv, InsertOrAppend P (nextDom s) nx] else [])
        \<and> (\<forall>p x. InsertOrAppend p (nextDom s) x \<notin> set rest)
        \<and> (\<forall>f a. Invoke f (ADom a) \<notin> set (newlog s s'))
        \<and> lifecycle s' = lifecycle s @ l @ [RefCallback fn (nextDom s)])"
proof (intro impI, elim conjE)
  assume m: "mountElement E iv vNode P nx cx svg ins s = Inr (r, s')"
    and rf: "ref vNode = RFun fn"
  let ?svg = "svg \<or> 0 < flags vNode AND SvgElement E"
  let ?svgc = "\<lambda>tag. ?svg \<and> tag \<noteq> ''foreignObject''"
  from m obtain tag d s1 s6 where
    dc: "documentCreateElement tag ?svg s = (d, s1)"
    and ch: "(isInvalid (children vNode) \<and> s6 = set_f iv HasInvalidChildren s1)
     \<or> (\<exists>p. children vNode = JPrim p \<and> s6 = set_f iv HasTextChildren (setTextContent d p s1))
     \<or> (\<exists>cv childIV s2 r5. \<not> isInvalid (children vNode) \<and> \<not> isStringOrNumber (children vNode)
           \<and> isVNode (children vNode) \<and> children vNode = JVNode cv
           \<and> createIV (children vNode) 0 s1 = (childIV, s2)
           \<and> mountVNode E childIV cv d None cx (?svgc tag) True
                (set_f iv HasBasicChildren (set_c iv (COne childIV) s2)) = Inr (r5, s6))
     \<or> (\<not> isInvalid (children vNode) \<and> \<not> isStringOrNumber (children vNode)
           \<and> \<not> isVNode (children vNode)
           \<and> mountArrayChildren E iv (children vNode) d None cx (?svgc tag) False False s1
               = Inr s6)"
    and fin: "finishElement E iv vNode d ?svg P nx ins s6 = Inr (r, s')"
    by (rule mountElementE)
  let ?T = "insert d (containersV vNode)"
  let ?s2 = "mountElementClassName vNode d ?svg (mountElementProps E iv vNode d ?svg s6)"
  let ?s3 = "push (RefCallback fn d) ?s2"
  have dn: "d = nextDom s" and l1: "log s1 = log s @ [CreateElement d tag ?svg]"
    and lc1: "lifecycle s1 = lifecycle s"
    using dc by (auto simp: documentCreateElement_def)
  have 6: "inv iv P ?T (Suc d) s1 s6"
    using dc ch by (rule mountElement_children_inv)
  have 7: "inv iv P ?T (Suc d) s6 ?s2"
    by (rule inv_same [OF inv_mountElementProps inv_mountElementClassName])
  have 8: "inv iv P ?T (Suc d) s1 ?s2"
    using 6 7 by (rule inv_same)
  have r: "r = DNode d"
    and s': "s' = (if ins then insertOrAppend P d nx (set_d iv iv (DNode d) ?s3) else ?s3)"
    using fin rf by (auto simp: finishElement_def mountRef_def Let_def)
  let ?rest = "newlog s1 ?s2"
  have l2: "log ?s2 = log s @ CreateElement d tag ?svg # ?rest"
    using inv_log [OF 8] l1 by simp
  have l': "log s' = log ?s2 @ Pushed (RefCallback fn d)
               # (if ins then [WroteD iv iv, InsertOrAppend P d nx] else [])"
    unfolding s' by (simp add: push_def insertOrAppend_def emit_def set_d_def)
  have nl: "newlog s s' = CreateElement d tag ?svg # ?rest @ Pushed (RefCallback fn d)
               # (if ins then [WroteD iv iv, InsertOrAppend P d nx] else [])"
  proof (rule newlogI)
    show "log s' = log s @ CreateElement d tag ?svg # ?rest @ Pushed (RefCallback fn d)
               # (if ins then [WroteD iv iv, InsertOrAppend P d nx] else [])"
      using l' l2 by simp
  qed
  have ni: "InsertOrAppend p d x \<notin> set ?rest" for p x
  proof
    assume "InsertOrAppend p d x \<in> set ?rest"
    with 8 have "evok P ?T (Suc d) s1 ?s2 (InsertOrAppend p d x)"
      by (simp add: inv_def)
    then show False by (simp add: evok_def)
  qed
  have nv: "Invoke f (ADom a) \<notin> set (newlog s s')" for f a
  proof
    assume "Invoke f (ADom a) \<in> set (newlog s s')"
    with mount_inv(4) [OF m] have "evok P (containersV vNode) (nextDom s) s s' (Invoke f (ADom a))"
      by (simp add: inv_def)
    then show False by (simp add: evok_def)
  qed
  obtain l where l: "lifecycle ?s2 = lifecycle s @ l"
    using inv_lifecycle [OF 8] lc1 by auto
  have lc: "lifecycle s' = lifecycle s @ l @ [RefCallback fn d]"
    unfolding s' using l by (simp add: push_def insertOrAppend_def emit_def set_d_def)
  show "\<exists>tag svg' rest l.
        r = DNode (nextDom s)
        \<and> newlog s s' = CreateElement (nextDom s) tag svg' # rest
             @ Pushed (RefCallback fn (nextDom s))
             # (if ins then [WroteD iv iv, InsertOrAppend P (nextDom s) nx] else [])
        \<and> (\<forall>p x. InsertOrAppend p (nextDom s) x \<notin> set rest)
        \<and> (\<forall>f a. Invoke f (ADom a) \<notin> set (newlog s s'))
        \<and> lifecycle s' = lifecycle s @ l @ [RefCallback fn (nextDom s)]"
    using r nl ni nv lc unfolding dn [symmetric] by blast
qed

theorem element_ref_deferred_witness:
  "\<not> isl (mountElement devEnv 0 divWithRef 1 None 0 False True initState)
   \<and> ref divWithRef = RFun 7
   \<and> fst (projr (mountElement devEnv 0 divWithRef 1 None 0 False True initState))
       = DNode (nextDom initState)
   \<and> Invoke 7 (ADom (DNode 10)) \<notin> set (newlog initState
        (snd (projr (mountElement devEnv 0 divWithRef 1 None 0 False True initState))))"
proof -
  let ?X = "mountElement devEnv 0 divWithRef 1 None 0 False True initState"
  have a: "\<not> isl ?X" by code_simp
  have b: "ref divWithRef = RFun 7" by code_simp
  from element_ref_deferred [of devEnv 0 divWithRef 1 None 0 False True initState
      "fst (projr ?X)" "snd (projr ?X)" 7] Inr_projr [OF a] b
  have "fst (projr ?X) = DNode (nextDom initState)
     \<and> Invoke 7 (ADom (DNode 10)) \<notin> set (newlog initState (snd (projr ?X)))"
    by auto
  with a b show ?thesis by (intro conjI) simp_all
qed

section \<open>The order of the lifecycle queue\<close>

lemmas eval_simps = mount.simps mountVNode.simps mountPortal.simps mountElement.simps
  mountArrayChildren.simps mountArrayLoop.simps mountComponent.simps
  mountText_def mountRef_def mountClassComponentCallbacks_def
  mountFunctionalComponentCallbacks_def mountElementProps_def mountElementClassName_def
  finishElement_def createClassComponentInstance_def propsOrEmpty_def renderComponent_def
  finishComponent_def pushChild_def finishArray_def firstValidStep_def
  emit_def push_def createIV_def set_d_def set_c_def set_f_def set_t_def set_b_def
  createTextNode_def documentCreateElement_def insertOrAppend_def setTextContent_def
  devEnv_def prodEnv_def initState_def emptyIV_def newlog_def Let_def

lemma renderComponent_class:
  assumes "renderComponent E iv vNode P cx s = Inr ((instOpt, renderOutput, cx'), s1)"
    and "0 < flags vNode AND ComponentClass E"
  shows "\<exists>inst. instOpt = Some inst" and "lifecycle s1 = lifecycle s" and "nextIV s1 = nextIV s"
  using assms
  by (auto simp: renderComponent_def createClassComponentInstance_def Let_def emit_def
           split: sum.splits option.splits vtype.splits)

lemma lifecycle_mountClassComponentCallbacks:
  "mountClassComponentCallbacks E vNode rf inst s = Inr s1 \<Longrightarrow>
   lifecycle s1 = lifecycle s @
     (if hasComponentDidMount inst \<or> afterMount E \<noteq> None
      then [ClassDidMount (inst_id inst) vNode (afterMount E) (hasComponentDidMount inst)]
      else [])"
  by (auto simp: mountClassComponentCallbacks_def Let_def emit_def push_def
           split: if_splits sum.splits refval.splits)

lemma lifecycle_finishComponent_class:
  assumes "finishComponent E iv vNode (Some inst) d P nx ins s = Inr (r, s1)"
  shows "lifecycle s1 = lifecycle s @
     (if hasComponentDidMount inst \<or> afterMount E \<noteq> None
      then [ClassDidMount (inst_id inst) vNode (afterMount E) (hasComponentDidMount inst)]
      else [])"
proof -
  obtain sa where sa: "mountClassComponentCallbacks E vNode (ref vNode) inst s = Inr sa"
    and l: "lifecycle s1 = lifecycle sa"
    using assms
    by (auto simp: finishComponent_def Let_def emit_def insertOrAppend_def set_d_def
             split: sum.splits if_splits jsdom.splits)
  from lifecycle_mountClassComponentCallbacks [OF sa] l show ?thesis by simp
qed

text \<open>
  C4: the mount of a class component leaves the lifecycle queue as it was, followed by
  everything the mount of its render output has pushed (so the didMount callback of every
  component in its subtree), followed by its own didMount callback, if it has one to
  push. In the order of the queue the callbacks of the subtree come before the
  component's own.
\<close>

theorem class_didMount_after_subtree:
  "mountComponent E iv vNode P nx cx svg ins s = Inr (r, s') \<and> 0 < flags vNode AND ComponentClass E
   \<longrightarrow>
   (\<exists>inst renderOutput cx' s1 sub.
      renderComponent E iv vNode P cx s = Inr ((Some inst, renderOutput, cx'), s1)
      \<and> lifecycle s' = lifecycle s @ sub @
           (if hasComponentDidMount inst \<or> afterMount E \<noteq> None
            then [ClassDidMount (inst_id inst) vNode (afterMount E) (hasComponentDidMount inst)]
            else [])
      \<and> (if isInvalid renderOutput then sub = []
          else (\<exists>d s5 s6. mount E (nextIV s) renderOutput P nx cx' svg False s5 = Inr (d, s6)
                  \<and> lifecycle s5 = lifecycle s \<and> lifecycle s6 = lifecycle s @ sub)))"
proof (intro impI, elim conjE)
  assume m: "mountComponent E iv vNode P nx cx svg ins s = Inr (r, s')"
    and cl: "0 < flags vNode AND ComponentClass E"
  from m obtain instOpt renderOutput cx' s1 d s7 where
    rc: "renderComponent E iv vNode P cx s = Inr ((instOpt, renderOutput, cx'), s1)"
    and ch: "(isInvalid renderOutput \<and> d = DNull \<and> s7 = set_f iv HasInvalidChildren s1)
     \<or> (\<exists>childIV s3 s6. \<not> isInvalid renderOutput
           \<and> createIV renderOutput 0 (set_f iv HasBasicChildren s1) = (childIV, s3)
           \<and> mount E childIV renderOutput P nx cx' svg False
                (set_b childIV iv (set_c iv (COne childIV) s3)) = Inr (d, s6)
           \<and> s7 = set_d iv childIV d s6)"
    and fin: "finishComponent E iv vNode instOpt d P nx ins s7 = Inr (r, s')"
    by (rule mountComponentE)
  from renderComponent_class [OF rc cl] obtain inst where
    io: "instOpt = Some inst" and l1: "lifecycle s1 = lifecycle s" and n1: "nextIV s1 = nextIV s"
    by auto
  let ?own = "if hasComponentDidMount inst \<or> afterMount E \<noteq> None
            then [ClassDidMount (inst_id inst) vNode (afterMount E) (hasComponentDidMount inst)]
            else []"
  have l': "lifecycle s' = lifecycle s7 @ ?own"
    using fin io lifecycle_finishComponent_class by simp
  have "\<exists>sub. lifecycle s7 = lifecycle s @ sub
      \<and> (if isInvalid renderOutput then sub = []
          else (\<exists>d s5 s6. mount E (nextIV s) renderOutput P nx cx' svg False s5 = Inr (d, s6)
                  \<and> lifecycle s5 = lifecycle s \<and> lifecycle s6 = lifecycle s @ sub))"
    using ch
  proof (elim disjE exE conjE)
    assume "isInvalid renderOutput" "s7 = set_f iv HasInvalidChildren s1"
    then show ?thesis using l1 by (simp add: set_f_def)
  next
    fix childIV s3 s6
    assume ni: "\<not> isInvalid renderOutput"
      and c: "createIV renderOutput 0 (set_f iv HasBasicChildren s1) = (childIV, s3)"
      and mc: "mount E childIV renderOutput P nx cx' svg False
                (set_b childIV iv (set_c iv (COne childIV) s3)) = Inr (d, s6)"
      and s7: "s7 = set_d iv childIV d s6"
    let ?s5 = "set_b childIV iv (set_c iv (COne childIV) s3)"
    have cn: "childIV = nextIV s" and l5: "lifecycle ?s5 = lifecycle s"
      using c l1 n1 by (auto simp: createIV_def set_f_def set_c_def set_b_def)
    from mount_inv(1) [OF mc] obtain sub where sub: "lifecycle s6 = lifecycle ?s5 @ sub"
      using inv_lifecycle by blast
    have "lifecycle s7 = lifecycle s @ sub"
      using sub l5 by (simp add: s7 set_d_def)
    with ni mc sub l5 show ?thesis
      unfolding cn by auto
  qed
  with l' rc io show "\<exists>inst renderOutput cx' s1 sub.
      renderComponent E iv vNode P cx s = Inr ((Some inst, renderOutput, cx'), s1)
      \<and> lifecycle s' = lifecycle s @ sub @
           (if hasComponentDidMount inst \<or> afterMount E \<noteq> None
            then [ClassDidMount (inst_id inst) vNode (afterMount E) (hasComponentDidMount inst)]
            else [])
      \<and> (if isInvalid renderOutput then sub = []
          else (\<exists>d s5 s6. mount E (nextIV s) renderOutput P nx cx' svg False s5 = Inr (d, s6)
                  \<and> lifecycle s5 = lifecycle s \<and> lifecycle s6 = lifecycle s @ sub))"
    by auto
qed

theorem class_didMount_after_subtree_witness:
  "\<not> isl (mountComponent devEnv 0 outerClass 1 None 0 False True initState)
   \<and> 0 < flags outerClass AND ComponentClass devEnv
   \<and> last (lifecycle (snd (projr (mountComponent devEnv 0 outerClass 1 None 0 False True
         initState)))) = ClassDidMount 0 outerClass None True
   \<and> lifecycle (snd (projr (mountComponent devEnv 0 outerClass 1 None 0 False True initState)))
     = [ClassDidMount 1 innerClass None True, ClassDidMount 0 outerClass None True]"
proof -
  let ?X = "mountComponent devEnv 0 outerClass 1 None 0 False True initState"
  have a: "\<not> isl ?X"
    by (simp add: eval_simps outerClass_def innerClass_def)
  have b: "0 < flags outerClass AND ComponentClass devEnv"
    by (simp add: outerClass_def devEnv_def)
  have c: "lifecycle (snd (projr ?X))
     = [ClassDidMount 1 innerClass None True, ClassDidMount 0 outerClass None True]"
    by (simp add: eval_simps outerClass_def innerClass_def)
  from class_didMount_after_subtree [of devEnv 0 outerClass 1 None 0 False True initState
      "fst (projr ?X)" "snd (projr ?X)"] Inr_projr [OF a] b
  obtain inst renderOutput cx' s1 sub where
    rc: "renderComponent devEnv 0 outerClass 1 0 initState
           = Inr ((Some inst, renderOutput, cx'), s1)"
    and l: "lifecycle (snd (projr ?X)) = lifecycle initState @ sub @
           (if hasComponentDidMount inst \<or> afterMount devEnv \<noteq> None
            then [ClassDidMount (inst_id inst) outerClass (afterMount devEnv)
                    (hasComponentDidMount inst)]
            else [])"
    by auto
  from rc have "inst_id inst = 0" "hasComponentDidMount inst" "afterMount devEnv = None"
    by (auto simp: renderComponent_def createClassComponentInstance_def outerClass_def
          devEnv_def initState_def Let_def)
  with l have "last (lifecycle (snd (projr ?X))) = ClassDidMount 0 outerClass None True"
    by simp
  with a b c show ?thesis by (intro conjI)
qed

section \<open>Arrays of children\<close>

lemma validEntries_Nil: "validEntries i [] = []"
  by (simp add: validEntries_def)

lemma upt_Suc_shift: "[i..<i + Suc n] = i # [Suc i..<Suc i + n]"
  by (simp add: upt_conv_Cons del: upt_Suc)

lemma validEntries_Cons:
  "validEntries i (x # xs) = (if isInvalid x then [] else [(i, x)]) @ validEntries (Suc i) xs"
proof -
  have e: "[i..<i + length (x # xs)] = i # [Suc i..<Suc i + length xs]"
    by (simp add: upt_conv_Cons del: upt_Suc)
  show ?thesis
    unfolding validEntries_def e by simp
qed

lemma validEntries_empty: "(validEntries i xs = []) = (\<forall>x \<in> set xs. isInvalid x)"
  by (induction xs arbitrary: i) (auto simp: validEntries_Nil validEntries_Cons)

lemma find_valid_None: "(find (\<lambda>x. \<not> isInvalid x) xs = None) = (\<forall>x \<in> set xs. isInvalid x)"
  by (auto simp: find_None_iff)

lemma ext_of_mount:
  "mount E iv input P nx cx svg ins s = Inr (r, s') \<Longrightarrow> ext iv s s'"
  using mount_inv(1) by (auto simp: inv_def)

lemma ext_of_loop:
  "mountArrayLoop E iv xs i fv P nx cx svg fk s = Inr s' \<Longrightarrow> ext iv s s'"
  using mount_inv(6) by (auto simp: inv_def)

lemma mountArrayLoop_children:
  assumes "mountArrayLoop E iv xs i fv P nx cx svg fk s = Inr s'" and "iv < nextIV s"
  shows "case find (\<lambda>x. \<not> isInvalid x) xs of
           None \<Rightarrow> s' = s
         | Some x \<Rightarrow>
             (\<exists>cs. iv_c (ivs s' iv) = CMany ((if fv then [] else kids (ivs s iv)) @ cs)
                \<and> map (entryOf s') cs = validEntries i xs
                \<and> (\<forall>c \<in> set cs. nextIV s \<le> c)
                \<and> iv_f (ivs s' iv)
                   = (if fv then Some (if fk \<or> hasKey x then HasKeyedChildren
                                        else HasNonKeydChildren)
                      else iv_f (ivs s iv)))"
  using assms
proof (induction xs arbitrary: i fv s)
  case Nil
  then show ?case by (simp add: mountArrayLoop_Nil)
next
  case (Cons child rest)
  show ?case
  proof (cases "isInvalid child")
    case True
    with Cons.prems have m: "mountArrayLoop E iv rest (Suc i) fv P nx cx svg fk s = Inr s'"
      by (simp add: mountArrayLoop_invalid)
    have ve: "validEntries i (child # rest) = validEntries (Suc i) rest"
      using True by (simp add: validEntries_Cons)
    have fnd: "find (\<lambda>x. \<not> isInvalid x) (child # rest) = find (\<lambda>x. \<not> isInvalid x) rest"
      using True by simp
    show ?thesis
      unfolding ve fnd by (rule Cons.IH [OF m Cons.prems(2)])
  next
    case False
    from Cons.prems(1) False obtain c0 s2 s3 r s4 where
      c: "createIV child i (firstValidStep iv fv fk child s) = (c0, s2)"
      and pc: "pushChild iv c0 s2 = Inr s3"
      and m: "mount E c0 child P nx cx svg True s3 = Inr (r, s4)"
      and l: "mountArrayLoop E iv rest (Suc i) False P nx cx svg fk s4 = Inr s'"
      by (rule mountArrayLoop_validE)
    let ?s1 = "firstValidStep iv fv fk child s"
    let ?k = "if fv then [] else kids (ivs s iv)"
    let ?f = "if fv then Some (if fk \<or> hasKey child then HasKeyedChildren else HasNonKeydChildren)
              else iv_f (ivs s iv)"
    have c0: "c0 = nextIV s" and n2: "nextIV s2 = Suc (nextIV s)"
      and iv2: "ivs s2 iv = ivs ?s1 iv"
      and e2: "iv_i (ivs s2 c0) = i" "iv_input (ivs s2 c0) = child"
      using c Cons.prems(2)
      by (auto simp: createIV_def firstValidStep_def set_f_def set_c_def)
    have f1: "iv_f (ivs ?s1 iv) = ?f"
      by (simp add: firstValidStep_def set_f_def set_c_def)
    have ne: "iv \<noteq> c0" using c0 Cons.prems(2) by simp
    obtain k where k2: "iv_c (ivs s2 iv) = CMany k"
      and s3: "s3 = set_c iv (CMany (k @ [c0])) s2"
      using pc by (auto simp: pushChild_def split: ivchildren.splits)
    have kk: "k = ?k"
      using k2 iv2 by (cases fv) (simp_all add: firstValidStep_def set_f_def set_c_def kids_def)
    have iv3: "iv_c (ivs s3 iv) = CMany (k @ [c0])" "iv_f (ivs s3 iv) = ?f"
      and e3: "iv_i (ivs s3 c0) = i" "iv_input (ivs s3 c0) = child"
      and n3: "nextIV s3 = Suc (nextIV s)"
      using iv2 f1 e2 ne n2 by (auto simp: s3 set_c_def)
    have x4: "ext c0 s3 s4" using m by (rule ext_of_mount)
    have iv4: "ivs s4 iv = ivs s3 iv"
      and e4: "iv_i (ivs s4 c0) = i" "iv_input (ivs s4 c0) = child"
      and n4: "nextIV s3 \<le> nextIV s4"
      using x4 e3 ne n3 c0 Cons.prems(2) by (auto simp: ext_def)
    have x': "ext iv s4 s'" using l by (rule ext_of_loop)
    have e': "entryOf s' c0 = (i, child)"
      using x' e4 n4 n3 c0 by (auto simp: ext_def entryOf_def)
    have lt4: "iv < nextIV s4" using Cons.prems(2) n3 n4 by simp
    note IH = Cons.IH [OF l lt4]
    have fnd: "find (\<lambda>x. \<not> isInvalid x) (child # rest) = Some child"
      using False by simp
    show ?thesis
    proof (cases "find (\<lambda>x. \<not> isInvalid x) rest")
      case None
      with IH have s': "s' = s4" by simp
      from None have "validEntries (Suc i) rest = []"
        by (simp add: find_valid_None validEntries_empty)
      with False have ve: "validEntries i (child # rest) = [(i, child)]"
        by (simp add: validEntries_Cons)
      have "iv_c (ivs s' iv) = CMany (?k @ [c0])" "map (entryOf s') [c0] = validEntries i (child # rest)"
        "\<forall>c \<in> set [c0]. nextIV s \<le> c" "iv_f (ivs s' iv) = ?f"
        using iv3 iv4 e' ve c0 by (simp_all add: s' kk [symmetric])
      then show ?thesis
        unfolding fnd by (simp only: option.case) blast
    next
      case (Some y)
      with IH obtain cs where
        a: "iv_c (ivs s' iv) = CMany (kids (ivs s4 iv) @ cs)"
        and b: "map (entryOf s') cs = validEntries (Suc i) rest"
        and d: "\<forall>c \<in> set cs. nextIV s4 \<le> c"
        and f: "iv_f (ivs s' iv) = iv_f (ivs s4 iv)"
        by auto
      from False have ve: "validEntries i (child # rest) = (i, child) # validEntries (Suc i) rest"
        by (simp add: validEntries_Cons)
      have "iv_c (ivs s' iv) = CMany (?k @ (c0 # cs))"
        using a iv4 iv3 by (simp add: kids_def kk [symmetric])
      moreover have "map (entryOf s') (c0 # cs) = validEntries i (child # rest)"
        using b e' ve by simp
      moreover have "\<forall>c \<in> set (c0 # cs). nextIV s \<le> c"
        using d c0 n3 n4 by auto
      moreover have "iv_f (ivs s' iv) = ?f"
        using f iv4 iv3 by simp
      ultimately show ?thesis
        unfolding fnd by (simp only: option.case) blast
    qed
  qed
qed

lemma finishArray_keeps:
  assumes "finishArray iv virt s2 = Inr s'"
  shows "iv_f (ivs s' iv) = iv_f (ivs s2 iv)" and "iv_c (ivs s' iv) = iv_c (ivs s2 iv)"
    and "entryOf s' c = entryOf s2 c" and "nextIV s' = nextIV s2" and "nextDom s' = nextDom s2"
    and "lifecycle s' = lifecycle s2"
    and "log s' = log s2 @ (if virt then [WroteD iv iv] else [])"
  using assms
  by (auto simp: finishArray_def Let_def set_t_def set_d_def entryOf_def
           split: if_splits ivchildren.splits list.splits)

lemma mountArrayChildren_arrayE:
  assumes "mountArrayChildren E iv (JArr xs) P nx cx svg fk virt s = Inr s'"
  obtains s2 where
    "mountArrayLoop E iv xs 0 True P nx cx svg fk
       (set_f iv HasInvalidChildren (set_c iv CNull s)) = Inr s2"
    "finishArray iv virt s2 = Inr s'"
  using assms by (rule mountArrayChildrenE) auto

text \<open>
  C1: when an array of children is mounted without forced keying and its first valid
  entry is \<open>x\<close>, the array's IV is flagged HasKeyedChildren if \<open>x\<close> is a View Node with a
  non-null key, and HasNonKeydChildren otherwise (\<open>x\<close> has no key or is a primitive),
  whatever the later entries are.
\<close>

theorem array_flag_from_first_valid_entry:
  "mountArrayChildren E iv (JArr xs) P nx cx svg False virt s = Inr s' \<and> iv < nextIV s
   \<and> find (\<lambda>x. \<not> isInvalid x) xs = Some x
   \<longrightarrow> iv_f (ivs s' iv) = Some (if hasKey x then HasKeyedChildren else HasNonKeydChildren)"
proof (intro impI, elim conjE)
  assume m: "mountArrayChildren E iv (JArr xs) P nx cx svg False virt s = Inr s'"
    and lt: "iv < nextIV s" and fnd: "find (\<lambda>x. \<not> isInvalid x) xs = Some x"
  let ?s1 = "set_f iv HasInvalidChildren (set_c iv CNull s)"
  from m obtain s2 where
    l: "mountArrayLoop E iv xs 0 True P nx cx svg False ?s1 = Inr s2"
    and fin: "finishArray iv virt s2 = Inr s'"
    by (rule mountArrayChildren_arrayE)
  have "iv < nextIV ?s1" using lt by (simp add: set_f_def set_c_def)
  from mountArrayLoop_children [OF l this] fnd
  have "iv_f (ivs s2 iv) = Some (if hasKey x then HasKeyedChildren else HasNonKeydChildren)"
    by auto
  with finishArray_keeps(1) [OF fin]
  show "iv_f (ivs s' iv) = Some (if hasKey x then HasKeyedChildren else HasNonKeydChildren)"
    by simp
qed

theorem array_flag_from_first_valid_entry_witness:
  "\<not> isl (mountArrayChildren devEnv 0 (JArr keyedFirstArray) 1 None 0 False False True initState)
   \<and> 0 < nextIV initState
   \<and> find (\<lambda>x. \<not> isInvalid x) keyedFirstArray
     = Some (JVNode (VNode 1 (Tag ''li'') None JNull (Some (PStr ''k'')) RNull None))
   \<and> iv_f (ivs (projr (mountArrayChildren devEnv 0 (JArr keyedFirstArray) 1 None 0 False False
        True initState)) 0) = Some HasKeyedChildren"
proof -
  let ?X = "mountArrayChildren devEnv 0 (JArr keyedFirstArray) 1 None 0 False False True initState"
  have a: "\<not> isl ?X"
    by (simp add: eval_simps keyedFirstArray_def)
  have b: "0 < nextIV initState" by (simp add: initState_def)
  have c: "find (\<lambda>x. \<not> isInvalid x) keyedFirstArray
     = Some (JVNode (VNode 1 (Tag ''li'') None JNull (Some (PStr ''k'')) RNull None))"
    by (simp add: keyedFirstArray_def)
  from a have e: "?X = Inr (projr ?X)" by (cases ?X) auto
  from array_flag_from_first_valid_entry [of devEnv 0 keyedFirstArray 1 None 0 False True
      initState "projr ?X"] e b c
  have "iv_f (ivs (projr ?X) 0) = Some HasKeyedChildren" by simp
  with a b c show ?thesis by (intro conjI)
qed

section \<open>Where a portal inserts\<close>

lemma in_newlog:
  "prefix (log s) (log s1) \<Longrightarrow> log s' = log s1 @ es \<Longrightarrow> e \<in> set es \<Longrightarrow> e \<in> set (newlog s s')"
  by (auto simp: newlog_def prefix_def)

lemma mountText_inserts:
  "mountText iv p P nx cx svg True s = (d, s') \<Longrightarrow> InsertOrAppend P d nx \<in> set (newlog s s')"
  by (drule mountText_log) (auto simp: newlog_def)

lemma finishElement_log:
  assumes "finishElement E iv vNode d svg P nx ins s = Inr (r, s1)"
  shows "\<exists>s3 :: state. prefix (log s) (log s3) \<and> r = DNode d
           \<and> log s1 = log s3 @ (if ins then [WroteD iv iv, InsertOrAppend P d nx] else [])"
proof -
  let ?s1 = "mountElementProps E iv vNode d svg s"
  let ?s2 = "mountElementClassName vNode d svg ?s1"
  have a: "prefix (log s) (log ?s2)"
    using inv_same [OF inv_mountElementProps inv_mountElementClassName, where T = "{}" and N = 0]
    by (rule inv_prefix)
  obtain s3 where m: "(if ref vNode \<noteq> RNull then mountRef E d (ref vNode) ?s2 else Inr ?s2) = Inr s3"
    and r: "s1 = (if ins then insertOrAppend P d nx (set_d iv iv (DNode d) s3) else s3)"
    and rd: "r = DNode d"
    using assms(1) unfolding finishElement_def Let_def
    by (auto split: sum.splits)
  have "prefix (log ?s2) (log s3)"
    using m inv_mountRef [where T = "{}" and N = 0, THEN inv_prefix]
    by (auto split: if_splits)
  with a have "prefix (log s) (log s3)" by (rule prefix_order.trans)
  moreover have "log s1 = log s3 @ (if ins then [WroteD iv iv, InsertOrAppend P d nx] else [])"
    unfolding r by (simp add: insertOrAppend_def emit_def set_d_def)
  ultimately show ?thesis using rd by - (rule exI [of _ s3], simp)
qed

lemma mountElement_inserts:
  assumes "mountElement E iv vNode P nx cx svg True s = Inr (DNode n, s')"
  shows "InsertOrAppend P n nx \<in> set (newlog s s')"
proof -
  let ?svg = "svg \<or> 0 < flags vNode AND SvgElement E"
  let ?svgc = "\<lambda>tag. ?svg \<and> tag \<noteq> ''foreignObject''"
  from assms obtain tag d s1 s6 where
    dc: "documentCreateElement tag ?svg s = (d, s1)"
    and ch: "(isInvalid (children vNode) \<and> s6 = set_f iv HasInvalidChildren s1)
     \<or> (\<exists>p. children vNode = JPrim p \<and> s6 = set_f iv HasTextChildren (setTextContent d p s1))
     \<or> (\<exists>cv childIV s2 r5. \<not> isInvalid (children vNode) \<and> \<not> isStringOrNumber (children vNode)
           \<and> isVNode (children vNode) \<and> children vNode = JVNode cv
           \<and> createIV (children vNode) 0 s1 = (childIV, s2)
           \<and> mountVNode E childIV cv d None cx (?svgc tag) True
                (set_f iv HasBasicChildren (set_c iv (COne childIV) s2)) = Inr (r5, s6))
     \<or> (\<not> isInvalid (children vNode) \<and> \<not> isStringOrNumber (children vNode)
           \<and> \<not> isVNode (children vNode)
           \<and> mountArrayChildren E iv (children vNode) d None cx (?svgc tag) False False s1
               = Inr s6)"
    and fin: "finishElement E iv vNode d ?svg P nx True s6 = Inr (DNode n, s')"
    by (rule mountElementE)
  have "prefix (log s) (log s1)"
    using dc by (auto simp: documentCreateElement_def)
  moreover have "prefix (log s1) (log s6)"
    using mountElement_children_inv [OF dc ch] by (rule inv_prefix)
  ultimately have p6: "prefix (log s) (log s6)" by (rule prefix_order.trans)
  from finishElement_log [OF fin] obtain s3 :: state where
    p3: "prefix (log s6) (log s3)" and nd: "DNode n = DNode d"
    and l: "log s' = log s3 @ (if True then [WroteD iv iv, InsertOrAppend P d nx] else [])"
    by blast
  from p6 p3 have "prefix (log s) (log s3)" by (rule prefix_order.trans)
  then show ?thesis
    using l by (rule in_newlog) (use nd in simp)
qed

lemma finishComponent_prefix:
  assumes "finishComponent E iv vNode instOpt d P nx ins s = Inr (r, s')"
  shows "prefix (log s) (log s')" and "r = d"
proof -
  have "case d of DNode n \<Rightarrow> (0::nat) \<le> n | _ \<Rightarrow> True"
    by (cases d) auto
  from inv_finishComponent [OF assms this, where T = "{}"]
  show "prefix (log s) (log s')" and "r = d"
    by (auto dest: inv_prefix)
qed

lemma finishComponent_inserts:
  assumes "finishComponent E iv vNode instOpt d P nx True s = Inr (DNode n, s')"
  shows "InsertOrAppend P n nx \<in> set (newlog s s')"
proof -
  have dn: "d = DNode n"
    using finishComponent_prefix(2) [OF assms] by simp
  obtain s3 where c: "(case instOpt of
              Some inst \<Rightarrow>
                (case mountClassComponentCallbacks E vNode (ref vNode) inst s of
                   Inl e \<Rightarrow> Inl e
                 | Inr s1 \<Rightarrow>
                     (let s2 = emit (SetUPD (inst_id inst) False) s1
                      in Inr (if findDOMNodeEnabled E
                              then emit (ComponentToDOMNodeMapSet (inst_id inst) d) s2
                              else s2)))
            | None \<Rightarrow>
                Inr (mountFunctionalComponentCallbacks (propsOrEmpty vNode) (ref vNode) d s)) = Inr s3"
    and s': "s' = insertOrAppend P n nx (set_d iv iv d s3)"
    using assms unfolding finishComponent_def Let_def
    by (auto simp: dn split: sum.splits)
  have "finishComponent E iv vNode instOpt d P nx False s = Inr (d, s3)"
    using c unfolding finishComponent_def Let_def by (simp split: sum.splits)
  then have "prefix (log s) (log s3)"
    by (rule finishComponent_prefix(1))
  moreover have "log s' = log s3 @ [WroteD iv iv, InsertOrAppend P n nx]"
    by (simp add: s' insertOrAppend_def emit_def set_d_def)
  ultimately show ?thesis
    by (rule in_newlog) simp
qed

lemma mountComponent_render_prefix:
  assumes rc: "renderComponent E iv vNode P cx s = Inr ((instOpt, renderOutput, cx'), s1)"
    and ch: "(isInvalid renderOutput \<and> d = DNull \<and> s7 = set_f iv HasInvalidChildren s1)
     \<or> (\<exists>childIV s3 s6. \<not> isInvalid renderOutput
           \<and> createIV renderOutput 0 (set_f iv HasBasicChildren s1) = (childIV, s3)
           \<and> mount E childIV renderOutput P nx cx' svg False
                (set_b childIV iv (set_c iv (COne childIV) s3)) = Inr (d, s6)
           \<and> s7 = set_d iv childIV d s6)"
  shows "prefix (log s) (log s7)"
proof -
  have 1: "prefix (log s) (log s1)"
    using inv_renderComponent [OF rc, where T = "{}" and N = 0] by (rule inv_prefix)
  have "prefix (log s1) (log s7)"
    using ch
  proof (elim disjE exE conjE)
    assume "s7 = set_f iv HasInvalidChildren s1"
    then show ?thesis by (simp add: set_f_def)
  next
    fix childIV s3 s6
    assume c: "createIV renderOutput 0 (set_f iv HasBasicChildren s1) = (childIV, s3)"
      and m: "mount E childIV renderOutput P nx cx' svg False
                (set_b childIV iv (set_c iv (COne childIV) s3)) = Inr (d, s6)"
      and s7: "s7 = set_d iv childIV d s6"
    have "log (set_b childIV iv (set_c iv (COne childIV) s3)) = log s1"
      using c by (auto simp: createIV_def set_f_def set_c_def set_b_def)
    with inv_prefix [OF mount_inv(1) [OF m, THEN conjunct1]]
    have "prefix (log s1) (log s6)" by simp
    then show ?thesis
      by (auto simp: s7 set_d_def prefix_def)
  qed
  with 1 show ?thesis by (rule prefix_order.trans)
qed

lemma mountComponent_inserts:
  assumes "mountComponent E iv vNode P nx cx svg True s = Inr (DNode n, s')"
  shows "InsertOrAppend P n nx \<in> set (newlog s s')"
proof -
  from assms obtain instOpt renderOutput cx' s1 d s7 where
    rc: "renderComponent E iv vNode P cx s = Inr ((instOpt, renderOutput, cx'), s1)"
    and ch: "(isInvalid renderOutput \<and> d = DNull \<and> s7 = set_f iv HasInvalidChildren s1)
     \<or> (\<exists>childIV s3 s6. \<not> isInvalid renderOutput
           \<and> createIV renderOutput 0 (set_f iv HasBasicChildren s1) = (childIV, s3)
           \<and> mount E childIV renderOutput P nx cx' svg False
                (set_b childIV iv (set_c iv (COne childIV) s3)) = Inr (d, s6)
           \<and> s7 = set_d iv childIV d s6)"
    and fin: "finishComponent E iv vNode instOpt d P nx True s7 = Inr (DNode n, s')"
    by (rule mountComponentE)
  have p: "prefix (log s) (log s7)"
    using rc ch by (rule mountComponent_render_prefix)
  have "InsertOrAppend P n nx \<in> set (newlog s7 s')"
    using fin by (rule finishComponent_inserts)
  moreover have "prefix (log s7) (log s')"
    using fin by (rule finishComponent_prefix(1))
  ultimately show ?thesis
    using p by (auto simp: newlog_def prefix_def)
qed

lemma mountPortal_log:
  assumes "mountPortal E iv v P nx cx svg ins s = Inr (r, s')"
  obtains target r3 s3 d where
    "type v = Container target"
    "mount E (nextIV s) (children v) target None cx svg True
       (set_c iv (COne (nextIV s)) (snd (createIV (children v) 0 s))) = Inr (r3, s3)"
    "log (set_c iv (COne (nextIV s)) (snd (createIV (children v) 0 s))) = log s"
    "nextDom (set_c iv (COne (nextIV s)) (snd (createIV (children v) 0 s))) = nextDom s"
    "prefix (log s) (log s3)" "r = DNode d" "d = nextDom s3"
    "log s' = log s3 @ CreateTextNode d (PStr [])
               # (if ins then [WroteD iv iv, InsertOrAppend P d nx] else [])"
proof -
  from assms obtain childIV s1 target r3 s3 d where
    c: "createIV (children v) 0 s = (childIV, s1)"
    and ty: "type v = Container target"
    and m: "mount E childIV (children v) target None cx svg True (set_c iv (COne childIV) s1)
       = Inr (r3, s3)"
    and t: "mountText iv (PStr []) P nx cx svg ins s3 = (d, s')" and rd: "r = DNode d"
    by (rule mountPortalE)
  let ?s2 = "set_c iv (COne (nextIV s)) (snd (createIV (children v) 0 s))"
  from c have e: "childIV = nextIV s" "s1 = snd (createIV (children v) 0 s)"
    by (auto simp: createIV_def)
  have l2: "log ?s2 = log s" and n2: "nextDom ?s2 = nextDom s"
    by (simp_all add: createIV_def set_c_def)
  have m': "mount E (nextIV s) (children v) target None cx svg True ?s2 = Inr (r3, s3)"
    using m e by simp
  have p: "prefix (log s) (log s3)"
    using inv_prefix [OF mount_inv(1) [OF m', THEN conjunct1]] l2 by simp
  from mountText_log [OF t] ty m' l2 n2 p rd that show ?thesis
    by blast
qed

lemma mountPortal_inserts:
  assumes "mountPortal E iv v P nx cx svg True s = Inr (DNode n, s')"
  shows "InsertOrAppend P n nx \<in> set (newlog s s')"
proof (rule mountPortal_log [OF assms], goal_cases)
  case (1 target r3 s3 d)
  from 1(5) 1(8) show ?case
    by (rule in_newlog) (use 1(6) in simp)
qed

lemma mount_inserts_result:
  assumes "mount E iv input P nx cx svg True s = Inr (DNode n, s')"
  shows "InsertOrAppend P n nx \<in> set (newlog s s')"
  using assms
proof (cases rule: mountE)
  case (prim p d)
  then show ?thesis by (auto dest: mountText_inserts)
next
  case (vnode v)
  from vnode(4) show ?thesis
  proof (cases rule: mountVNodeE)
    case element
    from element(2) show ?thesis by (rule mountElement_inserts)
  next
    case component
    from component(3) show ?thesis by (rule mountComponent_inserts)
  next
    case portal
    from portal(4) show ?thesis by (rule mountPortal_inserts)
  next
    case none
    then show ?thesis by simp
  qed
next
  case arr
  then show ?thesis by simp
qed

lemma mountElement_creates:
  assumes "mountElement E iv vNode P nx cx svg ins s = Inr (r, s')" and "type vNode = Tag tag"
  shows "r = DNode (nextDom s)"
    and "CreateElement (nextDom s) tag (svg \<or> 0 < flags vNode AND SvgElement E)
           \<in> set (newlog s s')"
proof -
  let ?svg = "svg \<or> 0 < flags vNode AND SvgElement E"
  let ?svgc = "\<lambda>tag. ?svg \<and> tag \<noteq> ''foreignObject''"
  from assms(1) obtain tag' d s1 s6 where
    ty: "type vNode = Tag tag'"
    and dc: "documentCreateElement tag' ?svg s = (d, s1)"
    and ch: "(isInvalid (children vNode) \<and> s6 = set_f iv HasInvalidChildren s1)
     \<or> (\<exists>p. children vNode = JPrim p \<and> s6 = set_f iv HasTextChildren (setTextContent d p s1))
     \<or> (\<exists>cv childIV s2 r5. \<not> isInvalid (children vNode) \<and> \<not> isStringOrNumber (children vNode)
           \<and> isVNode (children vNode) \<and> children vNode = JVNode cv
           \<and> createIV (children vNode) 0 s1 = (childIV, s2)
           \<and> mountVNode E childIV cv d None cx (?svgc tag') True
                (set_f iv HasBasicChildren (set_c iv (COne childIV) s2)) = Inr (r5, s6))
     \<or> (\<not> isInvalid (children vNode) \<and> \<not> isStringOrNumber (children vNode)
           \<and> \<not> isVNode (children vNode)
           \<and> mountArrayChildren E iv (children vNode) d None cx (?svgc tag') False False s1
               = Inr s6)"
    and fin: "finishElement E iv vNode d ?svg P nx ins s6 = Inr (r, s')"
    by (rule mountElementE)
  have tg: "tag' = tag" using ty assms(2) by simp
  have dn: "d = nextDom s" and l1: "log s1 = log s @ [CreateElement d tag ?svg]"
    using dc by (auto simp: documentCreateElement_def tg)
  have p6: "prefix (log s1) (log s6)"
    using mountElement_children_inv [OF dc ch] by (rule inv_prefix)
  from finishElement_log [OF fin] obtain s3 :: state where
    p3: "prefix (log s6) (log s3)" and rd: "r = DNode d"
    and l: "log s' = log s3 @ (if ins then [WroteD iv iv, InsertOrAppend P d nx] else [])"
    by blast
  from p6 p3 have "prefix (log s1) (log s3)" by (rule prefix_order.trans)
  then have "prefix (log s1) (log s')"
    using l by (auto simp: prefix_def)
  then show "CreateElement (nextDom s) tag ?svg \<in> set (newlog s s')"
    using l1 by (auto simp: newlog_def prefix_def dn)
  show "r = DNode (nextDom s)" using rd dn by simp
qed

text \<open>
  C10: mountVNode hands a portal to the Portal Mounter with the SVG flag false, whatever
  the SVG flag it received, and the Portal Mounter mounts the content with that false
  flag. So the result does not depend on the SVG context; it is the result of mounting
  the content into the portal's container with SVG flag false and insertion enabled,
  followed by the placeholder; and a content that is an element is created in the SVG
  namespace only if it has the SvgElement bit itself.
\<close>

theorem portal_content_mounted_without_svg:
  "portalRouted E v \<longrightarrow>
     mountVNode E iv v P nx cx svg ins s = mountVNode E iv v P nx cx False ins s
     \<and> (\<forall>target. type v = Container target \<longrightarrow>
          mountVNode E iv v P nx cx svg ins s =
            (case mount E (nextIV s) (children v) target None cx False True
                    (set_c iv (COne (nextIV s)) (snd (createIV (children v) 0 s))) of
               Inl e \<Rightarrow> Inl e
             | Inr (r3, s3) \<Rightarrow>
                 Inr (DNode (fst (mountText iv (PStr []) P nx cx False ins s3)),
                      snd (mountText iv (PStr []) P nx cx False ins s3))))
     \<and> (\<forall>r s' cv tag. mountVNode E iv v P nx cx svg ins s = Inr (r, s')
            \<and> children v = JVNode cv \<and> 0 < flags cv AND Element E \<and> type cv = Tag tag \<longrightarrow>
          CreateElement (nextDom s) tag (0 < flags cv AND SvgElement E) \<in> set (newlog s s'))"
proof (intro impI conjI allI)
  assume a: "portalRouted E v"
  show "mountVNode E iv v P nx cx svg ins s = mountVNode E iv v P nx cx False ins s"
    using a by (simp add: mountVNode_portal)
next
  fix target
  assume a: "portalRouted E v" and ty: "type v = Container target"
  show "mountVNode E iv v P nx cx svg ins s =
            (case mount E (nextIV s) (children v) target None cx False True
                    (set_c iv (COne (nextIV s)) (snd (createIV (children v) 0 s))) of
               Inl e \<Rightarrow> Inl e
             | Inr (r3, s3) \<Rightarrow>
                 Inr (DNode (fst (mountText iv (PStr []) P nx cx False ins s3)),
                      snd (mountText iv (PStr []) P nx cx False ins s3)))"
    using a ty
    by (simp add: mountVNode_portal mountPortal.simps createIV_def Let_def split_beta
             split: sum.splits)
next
  fix r s' cv tag
  assume a: "portalRouted E v"
    and b: "mountVNode E iv v P nx cx svg ins s = Inr (r, s')
            \<and> children v = JVNode cv \<and> 0 < flags cv AND Element E \<and> type cv = Tag tag"
  from a b have mp: "mountPortal E iv v P nx cx False ins s = Inr (r, s')"
    by (simp add: mountVNode_portal)
  from b have cv: "children v = JVNode cv" and el: "0 < flags cv AND Element E"
    and tg: "type cv = Tag tag" by simp_all
  have vn: "isVNode (JVNode cv)" using el by (auto intro!: gr0I)
  show "CreateElement (nextDom s) tag (0 < flags cv AND SvgElement E) \<in> set (newlog s s')"
  proof (rule mountPortal_log [OF mp], goal_cases)
    case (1 target r3 s3 d)
    let ?s2 = "set_c iv (COne (nextIV s)) (snd (createIV (children v) 0 s))"
    from 1(2) have m: "mount E (nextIV s) (JVNode cv) target None cx False True ?s2 = Inr (r3, s3)"
      by (simp add: cv)
    from m have "mountVNode E (nextIV s) cv target None cx False True ?s2 = Inr (r3, s3)"
      using vn by (cases rule: mountE) simp_all
    then have "mountElement E (nextIV s) cv target None cx False True ?s2 = Inr (r3, s3)"
      using el by (subst (asm) mountVNode.simps) simp
    from mountElement_creates(2) [OF this tg]
    have "CreateElement (nextDom s) tag (0 < flags cv AND SvgElement E) \<in> set (newlog ?s2 s3)"
      by (simp add: 1(4))
    then have "CreateElement (nextDom s) tag (0 < flags cv AND SvgElement E)
        \<in> set (drop (length (log s)) (log s3))"
      by (simp add: newlog_def 1(3))
    then show ?case
      using 1(5) 1(8) by (auto simp: newlog_def prefix_def)
  qed
qed

theorem portal_content_mounted_without_svg_witness:
  "portalRouted devEnv portalOfP
   \<and> mountVNode devEnv 0 portalOfP 1 None 0 True True initState
     = mountVNode devEnv 0 portalOfP 1 None 0 False True initState
   \<and> \<not> isl (mountVNode devEnv 0 portalOfP 1 None 0 True True initState)
   \<and> CreateElement 10 ''p'' False \<in> set (newlog initState
        (snd (projr (mountVNode devEnv 0 portalOfP 1 None 0 True True initState))))
   \<and> log (snd (projr (mountVNode devEnv 0 portalOfP 1 None 0 True True initState)))
     = [CreateElement 10 ''p'' False, WroteD 1 1, InsertOrAppend 2 10 None,
        CreateTextNode 11 (PStr []), WroteD 0 0, InsertOrAppend 1 11 None]"
proof -
  let ?X = "mountVNode devEnv 0 portalOfP 1 None 0 True True initState"
  note T = portal_content_mounted_without_svg [where E = devEnv and v = portalOfP and iv = 0
      and P = 1 and nx = None and cx = 0 and svg = True and ins = True and s = initState]
  have pr: "portalRouted devEnv portalOfP" by code_simp
  have 1: "?X = mountVNode devEnv 0 portalOfP 1 None 0 False True initState"
    by (rule T [THEN mp, OF pr, THEN conjunct1])
  have 2: "\<not> isl ?X"
    by code_simp
  have 3: "log (snd (projr ?X))
     = [CreateElement 10 ''p'' False, WroteD 1 1, InsertOrAppend 2 10 None,
        CreateTextNode 11 (PStr []), WroteD 0 0, InsertOrAppend 1 11 None]"
    by code_simp
  have c: "children portalOfP = JVNode (VNode 1 (Tag ''p'') None JNull None RNull None)"
    by (simp add: portalOfP_def)
  have "CreateElement (nextDom initState) ''p''
          (0 < flags (VNode 1 (Tag ''p'') None JNull None RNull None) AND SvgElement devEnv)
        \<in> set (newlog initState (snd (projr ?X)))"
    using T [THEN mp, OF pr, THEN conjunct2, THEN conjunct2, rule_format,
        of "fst (projr ?X)" "snd (projr ?X)" "VNode 1 (Tag ''p'') None JNull None RNull None" "''p''"]
      Inr_projr [OF 2] c
    by (simp add: devEnv_def)
  then have 4: "CreateElement 10 ''p'' False
        \<in> set (newlog initState (snd (projr ?X)))"
    by (simp add: devEnv_def initState_def)
  from pr 1 2 4 3 show ?thesis by (intro conjI)
qed

section \<open>The portal's content and its placeholder\<close>





section \<open>What the dispatcher returns for each kind of input\<close>

text \<open>
  C6, amended: for every array input the dispatcher returns null. For every input it hands
  to the Portal Mounter it returns a DOM node, not null: the empty text node that the
  Portal Mounter creates as placeholder. For a text it returns the text node it created,
  for an element the element it created. For a component it returns null if the render
  output is invalid, and otherwise what the mount of the render output returned.
\<close>

theorem mount_result_by_kind_of_input:
  "(mount E iv (JArr xs) P nx cx svg ins s = Inr (r, s') \<longrightarrow> r = DNull)
   \<and> (portalRouted E v \<and> mount E iv (JVNode v) P nx cx svg ins s = Inr (r, s')
        \<longrightarrow> (\<exists>d. r = DNode d \<and> nextDom s \<le> d
                  \<and> CreateTextNode d (PStr []) \<in> set (newlog s s')))
   \<and> (\<exists>s1. mount E iv (JPrim p) P nx cx svg ins s = Inr (DNode (nextDom s), s1)
          \<and> CreateTextNode (nextDom s) p \<in> set (newlog s s1))
   \<and> (0 < flags v AND Element E \<and> mount E iv (JVNode v) P nx cx svg ins s = Inr (r, s')
        \<longrightarrow> r = DNode (nextDom s)
            \<and> (\<exists>tag. type v = Tag tag
                  \<and> CreateElement (nextDom s) tag (svg \<or> 0 < flags v AND SvgElement E)
                      \<in> set (newlog s s')))
   \<and> (\<not> 0 < flags v AND Element E \<and> 0 < flags v AND Component E
        \<and> mount E iv (JVNode v) P nx cx svg ins s = Inr (r, s')
        \<longrightarrow> (\<exists>instOpt out cx' s1.
               renderComponent E iv v P cx s = Inr ((instOpt, out, cx'), s1)
               \<and> (if isInvalid out then r = DNull
                   else \<exists>s6. mount E (nextIV s1) out P nx cx' svg False
                          (set_b (nextIV s1) iv (set_c iv (COne (nextIV s1))
                             (snd (createIV out 0 (set_f iv HasBasicChildren s1)))))
                        = Inr (r, s6))))"
proof -
  have c1: "mount E iv (JArr xs) P nx cx svg ins s = Inr (r, s') \<longrightarrow> r = DNull"
  proof
    assume "mount E iv (JArr xs) P nx cx svg ins s = Inr (r, s')"
    then show "r = DNull"
      by (cases rule: mountE) simp_all
  qed
  have c2: "portalRouted E v \<and> mount E iv (JVNode v) P nx cx svg ins s = Inr (r, s')
        \<longrightarrow> (\<exists>d. r = DNode d \<and> nextDom s \<le> d
                  \<and> CreateTextNode d (PStr []) \<in> set (newlog s s'))"
  proof
    assume a: "portalRouted E v \<and> mount E iv (JVNode v) P nx cx svg ins s = Inr (r, s')"
    then have mp: "mountPortal E iv v P nx cx False ins s = Inr (r, s')"
      using mount_portal [of E v iv P nx cx svg ins s] by auto
    show "\<exists>d. r = DNode d \<and> nextDom s \<le> d \<and> CreateTextNode d (PStr []) \<in> set (newlog s s')"
    proof (rule mountPortal_log [OF mp], goal_cases)
      case (1 target r3 s3 d)
      have "nextDom s \<le> d"
        using mount_inv(1) [OF 1(2)] by (auto simp: 1(4) 1(7) dest: nextDom_mono)
      moreover have "CreateTextNode d (PStr []) \<in> set (newlog s s')"
        using 1(5) 1(8) by (rule in_newlog) simp
      ultimately show ?case using 1(6) by blast
    qed
  qed
  have c3: "\<exists>s1. mount E iv (JPrim p) P nx cx svg ins s = Inr (DNode (nextDom s), s1)
          \<and> CreateTextNode (nextDom s) p \<in> set (newlog s s1)"
  proof -
    obtain d s1 where t: "mountText iv p P nx cx svg ins s = (d, s1)"
      by (cases "mountText iv p P nx cx svg ins s")
    from mountText_log [OF t] have "d = nextDom s"
      and "CreateTextNode (nextDom s) p \<in> set (newlog s s1)"
      by (auto simp: newlog_def)
    moreover have "mount E iv (JPrim p) P nx cx svg ins s = Inr (DNode d, s1)"
      using t by (simp add: mount.simps)
    ultimately show ?thesis
      by blast
  qed
  have c4: "0 < flags v AND Element E \<and> mount E iv (JVNode v) P nx cx svg ins s = Inr (r, s')
        \<longrightarrow> r = DNode (nextDom s)
            \<and> (\<exists>tag. type v = Tag tag
                  \<and> CreateElement (nextDom s) tag (svg \<or> 0 < flags v AND SvgElement E)
                      \<in> set (newlog s s'))"
  proof
    assume a: "0 < flags v AND Element E
      \<and> mount E iv (JVNode v) P nx cx svg ins s = Inr (r, s')"
    then have vn: "isVNode (JVNode v)" by (auto intro!: gr0I)
    from a [THEN conjunct2] have "mountVNode E iv v P nx cx svg ins s = Inr (r, s')"
      using vn by (cases rule: mountE) simp_all
    then have me: "mountElement E iv v P nx cx svg ins s = Inr (r, s')"
      using a by (subst (asm) mountVNode.simps) simp
    then obtain tag where ty: "type v = Tag tag"
      by (rule mountElementE)
    from mountElement_creates [OF me ty] ty
    show "r = DNode (nextDom s)
            \<and> (\<exists>tag. type v = Tag tag
                  \<and> CreateElement (nextDom s) tag (svg \<or> 0 < flags v AND SvgElement E)
                      \<in> set (newlog s s'))"
      by blast
  qed
  have c5: "\<not> 0 < flags v AND Element E \<and> 0 < flags v AND Component E
        \<and> mount E iv (JVNode v) P nx cx svg ins s = Inr (r, s')
        \<longrightarrow> (\<exists>instOpt out cx' s1.
               renderComponent E iv v P cx s = Inr ((instOpt, out, cx'), s1)
               \<and> (if isInvalid out then r = DNull
                   else \<exists>s6. mount E (nextIV s1) out P nx cx' svg False
                          (set_b (nextIV s1) iv (set_c iv (COne (nextIV s1))
                             (snd (createIV out 0 (set_f iv HasBasicChildren s1)))))
                        = Inr (r, s6)))"
  proof
    assume a: "\<not> 0 < flags v AND Element E \<and> 0 < flags v AND Component E
        \<and> mount E iv (JVNode v) P nx cx svg ins s = Inr (r, s')"
    then have vn: "isVNode (JVNode v)" by (auto intro!: gr0I)
    from a [THEN conjunct2, THEN conjunct2]
    have "mountVNode E iv v P nx cx svg ins s = Inr (r, s')"
      using vn by (cases rule: mountE) simp_all
    then have mc: "mountComponent E iv v P nx cx svg ins s = Inr (r, s')"
      using a by (subst (asm) mountVNode.simps) simp
    from mc obtain instOpt out cx' s1 d s7 where
      rc: "renderComponent E iv v P cx s = Inr ((instOpt, out, cx'), s1)"
      and ch: "(isInvalid out \<and> d = DNull \<and> s7 = set_f iv HasInvalidChildren s1)
       \<or> (\<exists>childIV s3 s6. \<not> isInvalid out
             \<and> createIV out 0 (set_f iv HasBasicChildren s1) = (childIV, s3)
             \<and> mount E childIV out P nx cx' svg False
                  (set_b childIV iv (set_c iv (COne childIV) s3)) = Inr (d, s6)
             \<and> s7 = set_d iv childIV d s6)"
      and fin: "finishComponent E iv v instOpt d P nx ins s7 = Inr (r, s')"
      by (rule mountComponentE)
    have rd: "r = d" using fin by (rule finishComponent_prefix(2))
    have "if isInvalid out then r = DNull
          else \<exists>s6. mount E (nextIV s1) out P nx cx' svg False
                 (set_b (nextIV s1) iv (set_c iv (COne (nextIV s1))
                    (snd (createIV out 0 (set_f iv HasBasicChildren s1)))))
               = Inr (r, s6)"
      using ch rd by (auto simp: createIV_def set_f_def)
    with rc show "\<exists>instOpt out cx' s1.
               renderComponent E iv v P cx s = Inr ((instOpt, out, cx'), s1)
               \<and> (if isInvalid out then r = DNull
                   else \<exists>s6. mount E (nextIV s1) out P nx cx' svg False
                          (set_b (nextIV s1) iv (set_c iv (COne (nextIV s1))
                             (snd (createIV out 0 (set_f iv HasBasicChildren s1)))))
                        = Inr (r, s6))"
      by blast
  qed
  from c1 c2 c3 c4 c5 show ?thesis by (intro conjI)
qed

theorem mount_result_by_kind_of_input_witness:
  "\<not> isl (mount devEnv 0 (JArr [JPrim (PStr ''a'')]) 1 None 0 False True initState)
   \<and> fst (projr (mount devEnv 0 (JArr [JPrim (PStr ''a'')]) 1 None 0 False True initState)) = DNull
   \<and> portalRouted devEnv portalOfP
   \<and> \<not> isl (mount devEnv 0 (JVNode portalOfP) 1 None 0 False True initState)
   \<and> fst (projr (mount devEnv 0 (JVNode portalOfP) 1 None 0 False True initState)) \<noteq> DNull
   \<and> 0 < flags divWithRef AND Element devEnv
   \<and> \<not> isl (mount devEnv 0 (JVNode divWithRef) 1 None 0 False True initState)
   \<and> fst (projr (mount devEnv 0 (JVNode divWithRef) 1 None 0 False True initState)) = DNode 10
   \<and> \<not> 0 < flags textComponent AND Element devEnv \<and> 0 < flags textComponent AND Component devEnv
   \<and> \<not> isl (mount devEnv 0 (JVNode textComponent) 1 None 0 False True initState)
   \<and> fst (projr (mount devEnv 0 (JVNode textComponent) 1 None 0 False True initState)) = DNode 10"
proof -
  let ?A = "mount devEnv 0 (JArr [JPrim (PStr ''a'')]) 1 None 0 False True initState"
  let ?B = "mount devEnv 0 (JVNode portalOfP) 1 None 0 False True initState"
  let ?C = "mount devEnv 0 (JVNode divWithRef) 1 None 0 False True initState"
  let ?D = "mount devEnv 0 (JVNode textComponent) 1 None 0 False True initState"
  have a: "\<not> isl ?A" by code_simp
  have b: "\<not> isl ?B" by code_simp
  have c: "\<not> isl ?C" by code_simp
  have d: "\<not> isl ?D" by code_simp
  have pr: "portalRouted devEnv portalOfP" by code_simp
  have el: "0 < flags divWithRef AND Element devEnv" by code_simp
  have co: "\<not> 0 < flags textComponent AND Element devEnv"
    "0 < flags textComponent AND Component devEnv" by code_simp+
  note T = mount_result_by_kind_of_input [where E = devEnv and iv = 0 and P = 1 and nx = None
      and cx = 0 and svg = False and ins = True and s = initState]
  from T [where xs = "[JPrim (PStr ''a'')]" and r = "fst (projr ?A)" and s' = "snd (projr ?A)",
      THEN conjunct1] Inr_projr [OF a]
  have 1: "fst (projr ?A) = DNull" by simp
  from T [where v = portalOfP and r = "fst (projr ?B)" and s' = "snd (projr ?B)",
      THEN conjunct2, THEN conjunct1] Inr_projr [OF b] pr
  have 2: "fst (projr ?B) \<noteq> DNull" by auto
  from T [where v = divWithRef and r = "fst (projr ?C)" and s' = "snd (projr ?C)",
      THEN conjunct2, THEN conjunct2, THEN conjunct2, THEN conjunct1] Inr_projr [OF c] el
  have 3: "fst (projr ?C) = DNode 10" by (simp add: initState_def)
  have rc: "renderComponent devEnv 0 textComponent 1 0 initState
      = Inr ((None, JPrim (PStr ''a''), 0), emit (CallFunction 3 [] 0) initState)"
    by (simp add: renderComponent_def textComponent_def devEnv_def propsOrEmpty_def)
  have h: "\<not> 0 < flags textComponent AND Element devEnv
      \<and> 0 < flags textComponent AND Component devEnv
      \<and> ?D = Inr (fst (projr ?D), snd (projr ?D))"
    using co Inr_projr [OF d] by (intro conjI)
  from T [where v = textComponent and r = "fst (projr ?D)" and s' = "snd (projr ?D)",
      THEN conjunct2, THEN conjunct2, THEN conjunct2, THEN conjunct2, THEN mp, OF h]
  obtain instOpt out cx' s1 where
    r1: "renderComponent devEnv 0 textComponent 1 0 initState = Inr ((instOpt, out, cx'), s1)"
    and r2: "if isInvalid out then fst (projr ?D) = DNull
       else \<exists>s6. mount devEnv (nextIV s1) out 1 None cx' False False
              (set_b (nextIV s1) 0 (set_c 0 (COne (nextIV s1))
                 (snd (createIV out 0 (set_f 0 HasBasicChildren s1)))))
            = Inr (fst (projr ?D), s6)"
    by blast
  from r1 [unfolded rc] have o: "out = JPrim (PStr ''a'')"
    "s1 = emit (CallFunction 3 [] 0) initState"
    by simp_all
  from r2 have "fst (projr ?D) = DNode (nextDom (set_b (nextIV s1) 0 (set_c 0 (COne (nextIV s1))
                 (snd (createIV out 0 (set_f 0 HasBasicChildren s1))))))"
    unfolding o(1)
    by (auto simp: mount.simps mountText_def Let_def createTextNode_def split: prod.splits)
  then have 4: "fst (projr ?D) = DNode 10"
    by (simp add: o set_b_def set_c_def set_f_def createIV_def emit_def initState_def)
  from a 1 pr b 2 el c 3 co d 4 show ?thesis by (intro conjI)
qed

text \<open>
  C6 as stated fails: the dispatcher hands this portal to the Portal Mounter and returns
  the placeholder text node 11, not null.
\<close>

theorem mount_portal_returns_node_counterexample:
  "portalRouted devEnv portalOfP
   \<and> \<not> isl (mount devEnv 0 (JVNode portalOfP) 1 None 0 False True initState)
   \<and> fst (projr (mount devEnv 0 (JVNode portalOfP) 1 None 0 False True initState)) = DNode 11"
  by code_simp

section \<open>The valid entries of an array are mounted\<close>

lemma mountArrayLoop_valid:
  "\<not> isInvalid child \<Longrightarrow>
   mountArrayLoop E iv (child # rest) i fv P nx cx svg fk s =
     (let (childIV, s2) = createIV child i (firstValidStep iv fv fk child s)
      in case pushChild iv childIV s2 of
           Inl e \<Rightarrow> Inl e
         | Inr s3 \<Rightarrow>
             (case mount E childIV child P nx cx svg True s3 of
                Inl e \<Rightarrow> Inl e
              | Inr (r, s4) \<Rightarrow> mountArrayLoop E iv rest (Suc i) False P nx cx svg fk s4))"
  by (subst mountArrayLoop.simps(2)) (simp add: firstValidStep_def Let_def)

lemma mountArrayLoop_refines:
  "mountArrayLoop E iv xs i fv P nx cx svg fk s
   = mountValidEntries E iv (validEntries i xs) fv P nx cx svg fk s"
proof (induction xs arbitrary: i fv s)
  case Nil
  show ?case by (simp add: validEntries_Nil mountArrayLoop_Nil)
next
  case (Cons x xs)
  show ?case
  proof (cases "isInvalid x")
    case True
    then show ?thesis
      by (simp add: mountArrayLoop_invalid validEntries_Cons Cons.IH)
  next
    case False
    then show ?thesis
      by (simp add: mountArrayLoop_valid validEntries_Cons Cons.IH
               split: prod.splits sum.splits)
  qed
qed

lemma mountArrayLoop_valid_mounts:
  assumes "mountArrayLoop E iv (y # rest) i fv P nx cx svg fk s = Inr s'"
    and "\<not> isInvalid y"
  shows "\<exists>r s3 s4.
      pushChild iv (nextIV s) (snd (createIV y i (firstValidStep iv fv fk y s))) = Inr s3
      \<and> mount E (nextIV s) y P nx cx svg True s3 = Inr (r, s4)
      \<and> mountArrayLoop E iv rest (Suc i) False P nx cx svg fk s4 = Inr s'
      \<and> (\<forall>n. r = DNode n \<longrightarrow> InsertOrAppend P n nx \<in> set (newlog s s'))"
proof -
  from assms obtain childIV s2 s3 r s4 where
    c: "createIV y i (firstValidStep iv fv fk y s) = (childIV, s2)"
    and p: "pushChild iv childIV s2 = Inr s3"
    and m: "mount E childIV y P nx cx svg True s3 = Inr (r, s4)"
    and l: "mountArrayLoop E iv rest (Suc i) False P nx cx svg fk s4 = Inr s'"
    by (rule mountArrayLoop_validE)
  from c have e: "childIV = nextIV s" "s2 = snd (createIV y i (firstValidStep iv fv fk y s))"
    by (auto simp: createIV_def firstValidStep_def set_f_def set_c_def)
  have l3: "log s3 = log s"
    using p
    by (auto simp: e pushChild_def createIV_def firstValidStep_def set_f_def set_c_def
             split: ivchildren.splits)
  have p4: "prefix (log s3) (log s4)"
    using mount_inv(1) [OF m] by (auto dest: inv_prefix)
  have p': "prefix (log s4) (log s')"
    using mount_inv(6) [OF l] by (rule inv_prefix)
  have "InsertOrAppend P n nx \<in> set (newlog s s')" if "r = DNode n" for n
  proof -
    from m that have "InsertOrAppend P n nx \<in> set (newlog s3 s4)"
      by (simp add: mount_inserts_result)
    then show ?thesis
      using p4 p' by (auto simp: newlog_def prefix_def l3)
  qed
  with p m l show ?thesis
    unfolding e by blast
qed

text \<open>
  C7: an entry of an array of children that is null, undefined, true or false is a step
  of the loop that leaves everything as it is: no child IV, no DOM node. Every other
  entry gets a child IV created with that entry and its position and is mounted by the
  dispatcher into the array's parent, with insertion enabled; a DOM node that this mount
  returns has been inserted into the parent before the anchor. So the loop is the mount of
  the valid entries with their positions, in order, and the children sequence of the
  array's IV holds one child IV for every valid entry and nothing else. If no entry is
  valid, the IV keeps the flag HasInvalidChildren and a null children reference, and no IV
  and no DOM node has been created.
\<close>

theorem array_children_are_the_valid_entries:
  "(mountArrayChildren E iv (JArr xs) P nx cx svg fk virt s = Inr s' \<and> iv < nextIV s \<longrightarrow>
      (if \<forall>x \<in> set xs. isInvalid x
       then iv_c (ivs s' iv) = CNull \<and> iv_f (ivs s' iv) = Some HasInvalidChildren
            \<and> nextIV s' = nextIV s \<and> nextDom s' = nextDom s \<and> lifecycle s' = lifecycle s
            \<and> newlog s s' = (if virt then [WroteD iv iv] else [])
       else (\<exists>cs. iv_c (ivs s' iv) = CMany cs \<and> map (entryOf s') cs = validEntries 0 xs
               \<and> (\<forall>c \<in> set cs. nextIV s \<le> c))))
   \<and> (isInvalid y \<longrightarrow>
        mountArrayLoop E iv (y # rest) i fv P nx cx svg fk s
        = mountArrayLoop E iv rest (Suc i) fv P nx cx svg fk s)
   \<and> mountArrayLoop E iv xs i fv P nx cx svg fk s
     = mountValidEntries E iv (validEntries i xs) fv P nx cx svg fk s
   \<and> (\<not> isInvalid y \<and> mountArrayLoop E iv (y # rest) i fv P nx cx svg fk s = Inr s' \<longrightarrow>
        (\<exists>r s3 s4.
           pushChild iv (nextIV s) (snd (createIV y i (firstValidStep iv fv fk y s))) = Inr s3
           \<and> mount E (nextIV s) y P nx cx svg True s3 = Inr (r, s4)
           \<and> mountArrayLoop E iv rest (Suc i) False P nx cx svg fk s4 = Inr s'
           \<and> (\<forall>n. r = DNode n \<longrightarrow> InsertOrAppend P n nx \<in> set (newlog s s'))))"
proof -
  have c2: "isInvalid y \<longrightarrow>
        mountArrayLoop E iv (y # rest) i fv P nx cx svg fk s
        = mountArrayLoop E iv rest (Suc i) fv P nx cx svg fk s"
    by (simp add: mountArrayLoop_invalid)
  have c3: "mountArrayLoop E iv xs i fv P nx cx svg fk s
     = mountValidEntries E iv (validEntries i xs) fv P nx cx svg fk s"
    by (rule mountArrayLoop_refines)
  have c4: "\<not> isInvalid y \<and> mountArrayLoop E iv (y # rest) i fv P nx cx svg fk s = Inr s' \<longrightarrow>
        (\<exists>r s3 s4.
           pushChild iv (nextIV s) (snd (createIV y i (firstValidStep iv fv fk y s))) = Inr s3
           \<and> mount E (nextIV s) y P nx cx svg True s3 = Inr (r, s4)
           \<and> mountArrayLoop E iv rest (Suc i) False P nx cx svg fk s4 = Inr s'
           \<and> (\<forall>n. r = DNode n \<longrightarrow> InsertOrAppend P n nx \<in> set (newlog s s')))"
    using mountArrayLoop_valid_mounts [of E iv y rest i fv P nx cx svg fk s s'] by blast
  have c1: "mountArrayChildren E iv (JArr xs) P nx cx svg fk virt s = Inr s' \<and> iv < nextIV s \<longrightarrow>
      (if \<forall>x \<in> set xs. isInvalid x
       then iv_c (ivs s' iv) = CNull \<and> iv_f (ivs s' iv) = Some HasInvalidChildren
            \<and> nextIV s' = nextIV s \<and> nextDom s' = nextDom s \<and> lifecycle s' = lifecycle s
            \<and> newlog s s' = (if virt then [WroteD iv iv] else [])
       else (\<exists>cs. iv_c (ivs s' iv) = CMany cs \<and> map (entryOf s') cs = validEntries 0 xs
               \<and> (\<forall>c \<in> set cs. nextIV s \<le> c)))"
  proof (intro impI, elim conjE)
    assume m: "mountArrayChildren E iv (JArr xs) P nx cx svg fk virt s = Inr s'"
      and lt: "iv < nextIV s"
    let ?s1 = "set_f iv HasInvalidChildren (set_c iv CNull s)"
    from m obtain s2 where
      l: "mountArrayLoop E iv xs 0 True P nx cx svg fk ?s1 = Inr s2"
      and fin: "finishArray iv virt s2 = Inr s'"
      by (rule mountArrayChildren_arrayE)
    have lt1: "iv < nextIV ?s1" using lt by (simp add: set_f_def set_c_def)
    note L = mountArrayLoop_children [OF l lt1]
    note F = finishArray_keeps [OF fin]
    show "if \<forall>x \<in> set xs. isInvalid x
         then iv_c (ivs s' iv) = CNull \<and> iv_f (ivs s' iv) = Some HasInvalidChildren
              \<and> nextIV s' = nextIV s \<and> nextDom s' = nextDom s \<and> lifecycle s' = lifecycle s
              \<and> newlog s s' = (if virt then [WroteD iv iv] else [])
         else (\<exists>cs. iv_c (ivs s' iv) = CMany cs \<and> map (entryOf s') cs = validEntries 0 xs
                 \<and> (\<forall>c \<in> set cs. nextIV s \<le> c))"
    proof (cases "\<forall>x \<in> set xs. isInvalid x")
      case True
      then have "find (\<lambda>x. \<not> isInvalid x) xs = None" by (simp add: find_valid_None)
      with L have s2: "s2 = ?s1" by simp
      have "log s' = log s @ (if virt then [WroteD iv iv] else [])"
        using F(7) by (simp add: s2 set_f_def set_c_def)
      then have "newlog s s' = (if virt then [WroteD iv iv] else [])"
        by (rule newlogI)
      with True F(1,2,4,5,6) show ?thesis
        by (simp add: s2 set_f_def set_c_def)
    next
      case False
      then obtain x where "find (\<lambda>x. \<not> isInvalid x) xs = Some x"
        using find_valid_None [of xs] by (cases "find (\<lambda>x. \<not> isInvalid x) xs") auto
      with L obtain cs where
        a: "iv_c (ivs s2 iv) = CMany cs" and b: "map (entryOf s2) cs = validEntries 0 xs"
        and d: "\<forall>c \<in> set cs. nextIV ?s1 \<le> c"
        by auto
      have "map (entryOf s') cs = validEntries 0 xs"
        using b F(3) by (simp cong: map_cong)
      moreover have "\<forall>c \<in> set cs. nextIV s \<le> c"
        using d by (simp add: set_f_def set_c_def)
      ultimately show ?thesis
        using False a F(2) by auto
    qed
  qed
  from c1 c2 c3 c4 show ?thesis by (intro conjI)
qed

theorem array_children_are_the_valid_entries_witness:
  "\<not> isl (mountArrayChildren devEnv 0 (JArr mixedArray) 1 None 0 False False True initState)
   \<and> 0 < nextIV initState
   \<and> iv_c (ivs (projr (mountArrayChildren devEnv 0 (JArr mixedArray) 1 None 0 False False True
        initState)) 0) = CMany [1, 2]
   \<and> map (entryOf (projr (mountArrayChildren devEnv 0 (JArr mixedArray) 1 None 0 False False
        True initState))) [1, 2]
     = [(0, JPrim (PStr ''a'')),
        (1, JVNode (VNode 1 (Tag ''span'') None JNull (Some (PStr ''x'')) RNull None))]
   \<and> log (projr (mountArrayChildren devEnv 0 (JArr mixedArray) 1 None 0 False False True
        initState))
     = [CreateTextNode 10 (PStr ''a''), WroteD 1 1, InsertOrAppend 1 10 None,
        CreateElement 11 ''span'' False, WroteD 2 2, InsertOrAppend 1 11 None, WroteD 0 0]
   \<and> isInvalid JNull
   \<and> mountArrayLoop devEnv 0 [JNull] 2 False 1 None 0 False False initState = Inr initState
   \<and> \<not> isInvalid (JPrim (PStr ''a''))
   \<and> \<not> isl (mountArrayLoop devEnv 0 [JPrim (PStr ''a'')] 0 True 1 None 0 False False initState)
   \<and> InsertOrAppend 1 10 None \<in> set (newlog initState
        (projr (mountArrayLoop devEnv 0 [JPrim (PStr ''a'')] 0 True 1 None 0 False False
           initState)))"
proof -
  let ?X = "mountArrayChildren devEnv 0 (JArr mixedArray) 1 None 0 False False True initState"
  let ?L = "mountArrayLoop devEnv 0 [JPrim (PStr ''a'')] 0 True 1 None 0 False False initState"
  have a: "\<not> isl ?X"
    by (simp add: eval_simps mixedArray_def)
  have b: "0 < nextIV initState" by (simp add: initState_def)
  have c: "iv_c (ivs (projr ?X) 0) = CMany [1, 2]"
    by (simp add: eval_simps mixedArray_def)
  have lg: "log (projr ?X)
     = [CreateTextNode 10 (PStr ''a''), WroteD 1 1, InsertOrAppend 1 10 None,
        CreateElement 11 ''span'' False, WroteD 2 2, InsertOrAppend 1 11 None, WroteD 0 0]"
    by (simp add: eval_simps mixedArray_def)
  have v: "validEntries 0 mixedArray = [(0, JPrim (PStr ''a'')),
        (1, JVNode (VNode 1 (Tag ''span'') None JNull (Some (PStr ''x'')) RNull None))]"
    by (simp add: validEntries_def mixedArray_def upt_conv_Cons del: upt_Suc)
  have n: "\<not> (\<forall>x \<in> set mixedArray. isInvalid x)" by (simp add: mixedArray_def)
  from a have e: "?X = Inr (projr ?X)" by (cases ?X) auto
  note T = array_children_are_the_valid_entries [where E = devEnv and iv = 0 and P = 1
      and nx = None and cx = 0 and svg = False and fk = False and s = initState]
  from T [where xs = mixedArray and virt = True and s' = "projr ?X", THEN conjunct1] e b n c
  have 1: "map (entryOf (projr ?X)) [1, 2] = validEntries 0 mixedArray"
    by auto
  from T [where y = JNull and rest = "[]" and i = 2 and fv = False,
      THEN conjunct2, THEN conjunct1]
  have 2: "mountArrayLoop devEnv 0 [JNull] 2 False 1 None 0 False False initState = Inr initState"
    by (simp add: mountArrayLoop_Nil)
  have l: "\<not> isl ?L"
    by (simp add: eval_simps)
  then have el: "?L = Inr (projr ?L)" by (cases ?L) auto
  have h: "\<not> isInvalid (JPrim (PStr ''a'')) \<and> ?L = Inr (projr ?L)"
    using el by simp
  from T [where y = "JPrim (PStr ''a'')" and rest = "[]" and i = 0 and fv = True
      and s' = "projr ?L", THEN conjunct2, THEN conjunct2, THEN conjunct2, THEN mp, OF h]
  obtain r s3 s4 where
    p: "pushChild 0 (nextIV initState)
          (snd (createIV (JPrim (PStr ''a'')) 0
             (firstValidStep 0 True False (JPrim (PStr ''a'')) initState))) = Inr s3"
    and m: "mount devEnv (nextIV initState) (JPrim (PStr ''a'')) 1 None 0 False True s3
          = Inr (r, s4)"
    and ins: "\<forall>n. r = DNode n \<longrightarrow> InsertOrAppend 1 n None \<in> set (newlog initState (projr ?L))"
    by blast
  from p have "nextDom s3 = 10"
    by (auto simp: pushChild_def createIV_def firstValidStep_def set_f_def set_c_def
          initState_def split: ivchildren.splits)
  with m have "r = DNode 10"
    by (auto simp: mount.simps mountText_def Let_def createTextNode_def split: prod.splits)
  with ins have 3: "InsertOrAppend 1 10 None \<in> set (newlog initState (projr ?L))"
    by simp
  have i1: "isInvalid JNull" and i2: "\<not> isInvalid (JPrim (PStr ''a''))" by simp_all
  from a b c 1 [unfolded v] lg i1 2 i2 l 3 show ?thesis by (intro conjI)
qed

end
